theory Spec2Isabelle
  imports Complex_Main
begin

section \<open>Data model\<close>

text \<open>
  The numbers of a forecast and the numbers the queries compute from them are modelled as
  exact reals: the comparisons, sums and products of the queries are the ones of the
  source, without the rounding of IEEE doubles. Where the program prints a number, the
  model prints the double nearest to it (\<open>to_double\<close>, the number itself when it is a
  double). The negative zero of doubles has no counterpart among the reals. The unit
  conversions are given a second time on doubles. Exceptions are values of the type
  \<open>error\<close>; a function that can raise returns \<open>error + 'a\<close>, \<open>Inl\<close> carrying the exception.
  \<open>NotFoundError\<close> is the error kind the specification names for an empty geocoding
  result; no statement of the program raises it.

  Functions keep their names of the source without a leading underscore. The parameters
  \<^verbatim>\<open>curr\<close> and \<^verbatim>\<open>length\<close> of the source are \<open>curr_value\<close> and \<open>len\<close> here, the source's
  names being constants of HOL.
\<close>

datatype error = IndexError | ValueError | TypeError | ZeroDivisionError | OverflowError
  | NotFoundError

text \<open>
  One forecast period, with the fields the queries read:
  \<^verbatim>\<open>periods[i]['startTime']\<close>, \<^verbatim>\<open>['temperature']\<close>, \<^verbatim>\<open>['relativeHumidity']['value']\<close>,
  \<^verbatim>\<open>['windSpeed']\<close> (a string such as \<^verbatim>\<open>5 mph\<close>) and \<^verbatim>\<open>['probabilityOfPrecipitation']['value']\<close>.
  The forecast document is the list \<^verbatim>\<open>data['properties']['periods']\<close>.
\<close>

record period =
  startTime :: string
  temperature :: real
  relativeHumidity :: real
  windSpeed :: string
  probabilityOfPrecipitation :: real

text \<open>A latitude or longitude of a geocoding result: Nominatim sends strings, a file may hold numbers.\<close>

datatype json_number = JStr string | JNum real

record geocode_match =
  lat :: json_number
  lon :: json_number

section \<open>temperature.py\<close>

definition celsius :: "real \<Rightarrow> real" where
  "celsius temp_in_fahr = (temp_in_fahr - 32) * (5 / 9)"

definition fahrenheit :: "real \<Rightarrow> real" where
  "fahrenheit temp_in_cels = (temp_in_cels * (9 / 5)) + 32"

text \<open>The source builds the list of the nine terms and adds them to 0 in a loop, left to right.\<close>

definition calc_heat_index :: "real \<Rightarrow> real \<Rightarrow> real" where
  "calc_heat_index t h =
     foldl (+) 0
       [- 42.379,
        2.04901523 * t,
        10.14333127 * h,
        - 0.22475541 * t * h,
        - 0.00683783 * t * t,
        - 0.05481717 * h * h,
        0.00122874 * t * t * h,
        0.00085282 * t * h * h,
        - 0.00000199 * t * t * h * h]"

text \<open>
  \<^verbatim>\<open>w ** 0.16\<close> is \<open>w powr 0.16\<close> for \<open>w \<ge> 0\<close> (both give 0 at 0). For a negative \<open>w\<close>
  Python returns a complex number, which this model does not represent; the only caller
  passes \<open>w > 3\<close>.
\<close>

definition calc_wind_chill :: "real \<Rightarrow> real \<Rightarrow> real" where
  "calc_wind_chill t w =
     foldl (+) 0
       [35.74,
        0.6215 * t,
        - 35.75 * (w powr 0.16),
        0.4275 * t * (w powr 0.16)]"

section \<open>Library functions the program calls\<close>

subsection \<open>Characters and decimal digits\<close>

definition is_digit :: "char \<Rightarrow> bool" where
  "is_digit c = (48 \<le> (of_char c :: nat) \<and> (of_char c :: nat) \<le> 57)"

definition digit_val :: "char \<Rightarrow> nat" where
  "digit_val c = (of_char c :: nat) - 48"

definition digit_char :: "nat \<Rightarrow> char" where
  "digit_char d = char_of (48 + d mod 10)"

definition nat_of_digits :: "string \<Rightarrow> nat" where
  "nat_of_digits ds = foldl (\<lambda>a c. 10 * a + digit_val c) 0 ds"

definition all_digits :: "string \<Rightarrow> bool" where
  "all_digits ds = (ds \<noteq> [] \<and> list_all is_digit ds)"

fun string_of_nat :: "nat \<Rightarrow> string" where
  "string_of_nat n =
     (if n < 10 then [digit_char n] else string_of_nat (n div 10) @ [digit_char n])"

declare string_of_nat.simps [simp del]

definition show2 :: "nat \<Rightarrow> string" where
  "show2 n = [digit_char (n div 10), digit_char n]"

definition show4 :: "nat \<Rightarrow> string" where
  "show4 n = [digit_char (n div 1000), digit_char (n div 100), digit_char (n div 10), digit_char n]"

subsection \<open>\<^verbatim>\<open>str.split(' ')\<close>, \<^verbatim>\<open>float(...)\<close> and \<^verbatim>\<open>int(...)\<close>\<close>

text \<open>
  \<^verbatim>\<open>s.split(sep)\<close> with a one-character separator: every occurrence of the separator ends
  a piece, so the result has one more piece than \<open>s\<close> has separators and is never empty.
\<close>

fun split_on :: "char \<Rightarrow> string \<Rightarrow> string list" where
  "split_on sep [] = [[]]"
| "split_on sep (c # cs) =
     (if c = sep then [] # split_on sep cs
      else (case split_on sep cs of
              [] \<Rightarrow> [[c]]
            | w # ws \<Rightarrow> (c # w) # ws))"

text \<open>
  \<^verbatim>\<open>float(s)\<close> on the decimal literals \<^verbatim>\<open>[+-]digits[.digits]\<close> and \<^verbatim>\<open>[+-].digits\<close>, read
  exactly. Python's \<^verbatim>\<open>float\<close> also accepts surrounding white space, exponents, underscores
  between digits and the names of infinity and NaN: those strings are outside this model,
  which answers \<open>ValueError\<close> for every string that is not such a decimal literal.
\<close>

definition strip_sign :: "string \<Rightarrow> bool \<times> string" where
  "strip_sign s =
     (case s of
        [] \<Rightarrow> (False, [])
      | c # r \<Rightarrow> if c = CHR ''-'' then (True, r) else if c = CHR ''+'' then (False, r) else (False, s))"

definition py_float_str :: "string \<Rightarrow> error + real" where
  "py_float_str s =
     (let (neg, body) = strip_sign s;
          ip = takeWhile is_digit body;
          rest = dropWhile is_digit body;
          sgn = (if neg then - 1 else 1)
      in (case rest of
            [] \<Rightarrow> if ip = [] then Inl ValueError else Inr (sgn * real (nat_of_digits ip))
          | c # fp \<Rightarrow>
              if c = CHR ''.'' \<and> list_all is_digit fp \<and> (ip \<noteq> [] \<or> fp \<noteq> [])
              then Inr (sgn * (real (nat_of_digits ip) + real (nat_of_digits fp) / 10 ^ length fp))
              else Inl ValueError))"

definition py_float :: "json_number \<Rightarrow> error + real" where
  "py_float x = (case x of JNum r \<Rightarrow> Inr r | JStr s \<Rightarrow> py_float_str s)"

text \<open>
  \<^verbatim>\<open>int(s)\<close> on the literals \<^verbatim>\<open>[+-]digits\<close>; as for \<^verbatim>\<open>float\<close>, white space and
  underscores are outside the model.
\<close>

definition py_int :: "string \<Rightarrow> error + int" where
  "py_int s =
     (let (neg, body) = strip_sign s
      in if all_digits body
         then Inr (if neg then - int (nat_of_digits body) else int (nat_of_digits body))
         else Inl ValueError)"

text \<open>
  \<^verbatim>\<open>xs[i]\<close> at an index that is not negative (the program subscripts with the constants
  0 to 4 and with the values of a \<^verbatim>\<open>range\<close>): past the end Python raises \<open>IndexError\<close>.
\<close>

definition subscript :: "'a list \<Rightarrow> nat \<Rightarrow> error + 'a" where
  "subscript xs i = (if i < length xs then Inr (xs ! i) else Inl IndexError)"

definition and_then :: "error + 'a \<Rightarrow> ('a \<Rightarrow> error + 'b) \<Rightarrow> error + 'b" where
  "and_then r f = (case r of Inl e \<Rightarrow> Inl e | Inr x \<Rightarrow> f x)"

subsection \<open>\<^verbatim>\<open>datetime\<close>: \<^verbatim>\<open>fromisoformat\<close>, \<^verbatim>\<open>astimezone(utc)\<close>, \<^verbatim>\<open>strftime\<close>\<close>

text \<open>
  An aware \<^verbatim>\<open>datetime\<close>: the civil date and time of day, and the offset from UTC in
  minutes (positive east of Greenwich).
\<close>

record datetime =
  dt_year :: nat
  dt_month :: nat
  dt_day :: nat
  dt_hour :: nat
  dt_minute :: nat
  dt_second :: nat
  dt_offset :: int

definition is_leap :: "nat \<Rightarrow> bool" where
  "is_leap y = (if y mod 400 = 0 then True else if y mod 100 = 0 then False else y mod 4 = 0)"

definition days_in_month :: "nat \<Rightarrow> nat \<Rightarrow> nat" where
  "days_in_month y m =
     (if m = 2 then (if is_leap y then 29 else 28)
      else if m = 4 \<or> m = 6 \<or> m = 9 \<or> m = 11 then 30 else 31)"

definition field :: "nat \<Rightarrow> nat \<Rightarrow> string \<Rightarrow> string" where
  "field i n s = take n (drop i s)"

text \<open>
  \<^verbatim>\<open>datetime.fromisoformat\<close> on the timestamps of a forecast,
  \<^verbatim>\<open>YYYY-MM-DDTHH:MM:SS+HH:MM\<close> or with \<^verbatim>\<open>-HH:MM\<close>, every field in its ISO 8601 range
  (years 0001 to 9999). Python reads further ISO 8601 forms (no offset, fractions of a
  second, \<^verbatim>\<open>Z\<close>, the basic format): those strings are outside this model, which answers
  \<open>ValueError\<close> for every string that is not of the form above.
\<close>

definition fromisoformat :: "string \<Rightarrow> error + datetime" where
  "fromisoformat s =
     (if length s = 25 \<and> s ! 4 = CHR ''-'' \<and> s ! 7 = CHR ''-'' \<and> s ! 10 = CHR ''T''
         \<and> s ! 13 = CHR '':'' \<and> s ! 16 = CHR '':'' \<and> (s ! 19 = CHR ''+'' \<or> s ! 19 = CHR ''-'')
         \<and> s ! 22 = CHR '':''
         \<and> list_all is_digit (field 0 4 s) \<and> list_all is_digit (field 5 2 s)
         \<and> list_all is_digit (field 8 2 s) \<and> list_all is_digit (field 11 2 s)
         \<and> list_all is_digit (field 14 2 s) \<and> list_all is_digit (field 17 2 s)
         \<and> list_all is_digit (field 20 2 s) \<and> list_all is_digit (field 23 2 s)
      then
        (let y = nat_of_digits (field 0 4 s); mo = nat_of_digits (field 5 2 s);
             d = nat_of_digits (field 8 2 s); hh = nat_of_digits (field 11 2 s);
             mi = nat_of_digits (field 14 2 s); ss = nat_of_digits (field 17 2 s);
             oh = nat_of_digits (field 20 2 s); om = nat_of_digits (field 23 2 s);
             off = int (oh * 60 + om)
         in if 1 \<le> y \<and> 1 \<le> mo \<and> mo \<le> 12 \<and> 1 \<le> d \<and> d \<le> days_in_month y mo
               \<and> hh \<le> 23 \<and> mi \<le> 59 \<and> ss \<le> 59 \<and> oh \<le> 23 \<and> om \<le> 59
            then Inr \<lparr>dt_year = y, dt_month = mo, dt_day = d, dt_hour = hh, dt_minute = mi,
                      dt_second = ss, dt_offset = (if s ! 19 = CHR ''-'' then - off else off)\<rparr>
            else Inl ValueError)
      else Inl ValueError)"

text \<open>The day before and the day after a civil date; \<open>None\<close> outside the years 1 to 9999.\<close>

definition prev_day :: "nat \<times> nat \<times> nat \<Rightarrow> (nat \<times> nat \<times> nat) option" where
  "prev_day ymd =
     (case ymd of (y, m, d) \<Rightarrow>
        if 1 < d then Some (y, m, d - 1)
        else if 1 < m then Some (y, m - 1, days_in_month y (m - 1))
        else if 1 < y then Some (y - 1, 12, 31)
        else None)"

definition next_day :: "nat \<times> nat \<times> nat \<Rightarrow> (nat \<times> nat \<times> nat) option" where
  "next_day ymd =
     (case ymd of (y, m, d) \<Rightarrow>
        if d < days_in_month y m then Some (y, m, d + 1)
        else if m < 12 then Some (y, m + 1, 1)
        else if y < 9999 then Some (y + 1, 1, 1)
        else None)"

text \<open>
  \<^verbatim>\<open>dt.astimezone(datetime.timezone.utc)\<close>: the same instant with offset 0. The offset is
  less than a day, so the date moves by at most one day; a result outside the years 1 to
  9999 is Python's \<open>OverflowError\<close>.
\<close>

definition astimezone_utc :: "datetime \<Rightarrow> error + datetime" where
  "astimezone_utc dt =
     (let m = int (dt_hour dt * 60 + dt_minute dt) - dt_offset dt;
          ymd = (dt_year dt, dt_month dt, dt_day dt);
          shifted = (if m < 0 then (prev_day ymd, nat (m + 1440))
                     else if 1440 \<le> m then (next_day ymd, nat (m - 1440))
                     else (Some ymd, nat m))
      in (case shifted of
            (None, _) \<Rightarrow> Inl OverflowError
          | (Some (y, mo, d), m') \<Rightarrow>
              Inr \<lparr>dt_year = y, dt_month = mo, dt_day = d, dt_hour = m' div 60,
                   dt_minute = m' mod 60, dt_second = dt_second dt, dt_offset = 0\<rparr>))"

text \<open>
  The instant an aware \<^verbatim>\<open>datetime\<close> denotes, in seconds from 0001-01-01T00:00:00 UTC less
  one day: the days up to the date are counted as \<^verbatim>\<open>toordinal()\<close> counts them in the
  proleptic Gregorian calendar (the days before the year, the days before the month, the
  day of the month), and the offset is taken off. Two aware datetimes are equal in Python
  when they denote the same instant.
\<close>

definition days_before_year :: "nat \<Rightarrow> int" where
  "days_before_year y = (let z = int y - 1 in 365 * z + z div 4 - z div 100 + z div 400)"

definition days_before_month :: "nat \<Rightarrow> nat \<Rightarrow> int" where
  "days_before_month y m = int (sum_list (map (days_in_month y) [1..<m]))"

definition toordinal :: "nat \<Rightarrow> nat \<Rightarrow> nat \<Rightarrow> int" where
  "toordinal y m d = days_before_year y + days_before_month y m + int d"

definition instant :: "datetime \<Rightarrow> int" where
  "instant dt =
     ((toordinal (dt_year dt) (dt_month dt) (dt_day dt) * 24 + int (dt_hour dt)) * 60
        + int (dt_minute dt) - dt_offset dt) * 60 + int (dt_second dt)"

text \<open>
  \<^verbatim>\<open>strftime('%Y-%m-%dT%H:%M:%SZ')\<close> as the C library of Linux prints it: the year in
  decimal without padding (four digits from the year 1000 on, fewer below), every other
  field zero-padded to two digits.
\<close>

definition strftime_utc :: "datetime \<Rightarrow> string" where
  "strftime_utc dt =
     string_of_nat (dt_year dt) @ ''-'' @ show2 (dt_month dt) @ ''-'' @ show2 (dt_day dt) @ ''T''
       @ show2 (dt_hour dt) @ '':'' @ show2 (dt_minute dt) @ '':'' @ show2 (dt_second dt) @ ''Z''"

subsection \<open>Python floats\<close>

text \<open>
  A Python float is an IEEE 754 double: a finite number \<open>m \<sqdot> 2\<^sup>e\<close> with \<open>\<bar>m\<bar> < 2\<^sup>5\<^sup>3\<close> and
  \<open>-1074 \<le> e \<le> 971\<close>, the negative zero, an infinity, or NaN. \<open>Finite 0\<close> is the positive
  zero. \<open>to_double x\<close> is the double Python holds for the number \<open>x\<close> (\<^verbatim>\<open>float(x)\<close>, the
  reading of a decimal literal, the result of an operation whose exact value is \<open>x\<close>): the
  nearest double, a tie to the one with the even mantissa; infinity from
  \<open>2\<^sup>1\<^sup>0\<^sup>2\<^sup>4 - 2\<^sup>9\<^sup>7\<^sup>0\<close> on; the negative zero for a negative \<open>x\<close> that rounds to zero.
\<close>

definition round_half_even :: "real \<Rightarrow> int" where
  "round_half_even x =
     (let f = \<lfloor>x\<rfloor>; d = x - of_int f
      in if d < 1 / 2 then f else if 1 / 2 < d then f + 1 else if even f then f else f + 1)"

datatype double = Finite real | NegZero | PInf | NInf | NaN

text \<open>The exponent of the binade of \<open>x\<close> (at least that of the subnormal numbers), and the rounding.\<close>

definition expo :: "real \<Rightarrow> int" where
  "expo x = max (- 1022) \<lfloor>log 2 \<bar>x\<bar>\<rfloor>"

definition nearest :: "real \<Rightarrow> real" where
  "nearest x =
     (let u = 2 powr (real_of_int (expo x) - 52)
      in real_of_int (round_half_even (x / u)) * u)"

definition to_double :: "real \<Rightarrow> double" where
  "to_double x =
     (if x = 0 then Finite 0
      else (let r = nearest x
            in if 2 ^ 1024 \<le> r then PInf
               else if r \<le> - (2 ^ 1024) then NInf
               else if r = 0 then (if x < 0 then NegZero else Finite 0)
               else Finite r))"

definition is_finite :: "double \<Rightarrow> bool" where
  "is_finite a = (case a of Finite r \<Rightarrow> True | NegZero \<Rightarrow> True | _ \<Rightarrow> False)"

definition value_of :: "double \<Rightarrow> real" where
  "value_of a = (case a of Finite r \<Rightarrow> r | _ \<Rightarrow> 0)"

definition negative :: "double \<Rightarrow> bool" where
  "negative a = (case a of Finite r \<Rightarrow> r < 0 | NegZero \<Rightarrow> True | NInf \<Rightarrow> True | _ \<Rightarrow> False)"

text \<open>
  The arithmetic of floats: the exact result, rounded. An exact result 0 takes its sign
  from the operands (\<open>round_signed\<close>): the product is negative when the signs differ, the
  sum when both operands are negative. Infinities and NaN follow IEEE 754.
\<close>

definition round_signed :: "bool \<Rightarrow> real \<Rightarrow> double" where
  "round_signed neg x = (if x = 0 then (if neg then NegZero else Finite 0) else to_double x)"

definition fl_mul :: "double \<Rightarrow> double \<Rightarrow> double" where
  "fl_mul a b =
     (if a = NaN \<or> b = NaN then NaN
      else if is_finite a \<and> is_finite b
        then round_signed (negative a \<noteq> negative b) (value_of a * value_of b)
      else if (is_finite a \<and> value_of a = 0) \<or> (is_finite b \<and> value_of b = 0) then NaN
      else if negative a \<noteq> negative b then NInf else PInf)"

definition fl_add :: "double \<Rightarrow> double \<Rightarrow> double" where
  "fl_add a b =
     (if a = NaN \<or> b = NaN then NaN
      else if is_finite a \<and> is_finite b
        then round_signed (negative a \<and> negative b) (value_of a + value_of b)
      else if is_finite a then b
      else if is_finite b then a
      else if a = b then a else NaN)"

definition fl_neg :: "double \<Rightarrow> double" where
  "fl_neg a =
     (case a of Finite r \<Rightarrow> (if r = 0 then NegZero else Finite (- r))
      | NegZero \<Rightarrow> Finite 0 | PInf \<Rightarrow> NInf | NInf \<Rightarrow> PInf | NaN \<Rightarrow> NaN)"

definition fl_sub :: "double \<Rightarrow> double \<Rightarrow> double" where
  "fl_sub a b = fl_add a (fl_neg b)"

text \<open>
  The two conversions of \<^verbatim>\<open>temperature.py\<close> as Python evaluates them on a float: the
  quotients \<^verbatim>\<open>5 / 9\<close> and \<^verbatim>\<open>9 / 5\<close> of integers are the doubles nearest to them, and every
  operation rounds.
\<close>

definition celsius_double :: "double \<Rightarrow> double" where
  "celsius_double temp_in_fahr = fl_mul (fl_sub temp_in_fahr (Finite 32)) (to_double (5 / 9))"

definition fahrenheit_double :: "double \<Rightarrow> double" where
  "fahrenheit_double temp_in_cels = fl_add (fl_mul temp_in_cels (to_double (9 / 5))) (Finite 32)"

subsection \<open>The format specification \<^verbatim>\<open>.4f\<close>\<close>

text \<open>
  A float printed with four digits after the point: the exact value of the double is
  rounded to the nearest multiple of \<open>1/10000\<close>, a tie to the even one, and the sign of the
  double is kept (also that of the negative zero). The infinities and NaN print as words.
\<close>

definition format_4f :: "double \<Rightarrow> string" where
  "format_4f x =
     (case x of
        Finite v \<Rightarrow>
          (let n = nat (round_half_even (\<bar>v\<bar> * 10000))
           in (if v < 0 then ''-'' else []) @ string_of_nat (n div 10000) @ ''.''
                @ show4 (n mod 10000))
      | NegZero \<Rightarrow> ''-0.0000''
      | PInf \<Rightarrow> ''inf''
      | NInf \<Rightarrow> ''-inf''
      | NaN \<Rightarrow> ''nan'')"

subsection \<open>Pictures of strings\<close>

text \<open>
  The formats of the specification are written as pictures: a string fits a picture when
  it has the picture's length, a decimal digit wherever the picture has the letter \<open>d\<close>, and
  the picture's own character everywhere else. The time stamps of the output have the
  picture \<^verbatim>\<open>dddd-dd-ddTdd:dd:ddZ\<close>, the decimals of a value the picture \<^verbatim>\<open>.dddd\<close>.
\<close>

definition fits :: "string \<Rightarrow> string \<Rightarrow> bool" where
  "fits picture s = list_all2 (\<lambda>p c. if p = CHR ''d'' then is_digit c else c = p) picture s"

section \<open>data\_processing.py\<close>

definition process_curr_item ::
    "real \<Rightarrow> real option \<Rightarrow> string \<Rightarrow> string option \<Rightarrow> string \<Rightarrow> real option \<times> string option" where
  "process_curr_item curr_value target curr_datetime target_datetime limit =
     (case target of
        None \<Rightarrow> (Some curr_value, Some curr_datetime)
      | Some t \<Rightarrow>
          if (limit = ''MAX'' \<and> curr_value > t) \<or> (limit = ''MIN'' \<and> curr_value < t)
          then (Some curr_value, Some curr_datetime)
          else (target, target_datetime))"

text \<open>
  The update condition of \<open>process_curr_item\<close> on a running best that is set: the current
  value replaces the best \<open>t\<close> exactly when \<open>better limit curr_value t\<close>.
\<close>

definition better :: "string \<Rightarrow> real \<Rightarrow> real \<Rightarrow> bool" where
  "better limit curr_value t = ((limit = ''MAX'' \<and> curr_value > t) \<or> (limit = ''MIN'' \<and> curr_value < t))"

definition datetime_to_utc :: "string option \<Rightarrow> error + string" where
  "datetime_to_utc date_and_time =
     (case date_and_time of
        None \<Rightarrow> Inl TypeError
      | Some s \<Rightarrow>
          and_then (fromisoformat s) (\<lambda>datetime_obj.
          and_then (astimezone_utc datetime_obj) (\<lambda>u. Inr (strftime_utc u))))"

definition simplify_wind_speed :: "string \<Rightarrow> error + real" where
  "simplify_wind_speed wind_speed_data =
     and_then (subscript (split_on CHR '' '' wind_speed_data) 0) py_float_str"

text \<open>
  The five queries run the same loop \<^verbatim>\<open>for i in range(length)\<close> and differ in the value
  they take from \<^verbatim>\<open>periods[i]\<close>. \<open>scan_periods item periods limit k i\<close> runs the \<open>k\<close>
  iterations that remain from index \<open>i\<close> on the running pair
  \<open>(target, target_datetime)\<close>: reading \<^verbatim>\<open>periods[i]\<close> past the end raises \<open>IndexError\<close>,
  then \<open>item\<close> computes the current value (it may raise), then
  \<open>process_curr_item\<close> updates the pair.
\<close>

fun scan_periods ::
    "(period \<Rightarrow> error + real) \<Rightarrow> period list \<Rightarrow> string \<Rightarrow> nat \<Rightarrow> nat
      \<Rightarrow> real option \<times> string option \<Rightarrow> error + real option \<times> string option" where
  "scan_periods item periods limit 0 i st = Inr st"
| "scan_periods item periods limit (Suc k) i (target, target_datetime) =
     (if i < length periods
      then (case item (periods ! i) of
              Inl e \<Rightarrow> Inl e
            | Inr curr_value \<Rightarrow>
                scan_periods item periods limit k (Suc i)
                  (process_curr_item curr_value target (startTime (periods ! i)) target_datetime limit))
      else Inl IndexError)"

text \<open>
  The loop from \<open>(None, None)\<close> over \<^verbatim>\<open>range(length)\<close> (empty for a length below 1), and the
  returned f-string: \<^verbatim>\<open>_datetime_to_utc(target_datetime)\<close> is evaluated first, then the
  value is formatted as a float, then the suffix (\<^verbatim>\<open>%\<close> or nothing) follows.
\<close>

definition extremum_scan ::
    "(period \<Rightarrow> error + real) \<Rightarrow> period list \<Rightarrow> int \<Rightarrow> string \<Rightarrow> error + real option \<times> string option" where
  "extremum_scan item periods len limit = scan_periods item periods limit (nat len) 0 (None, None)"

definition result_line :: "real option \<times> string option \<Rightarrow> string \<Rightarrow> error + string" where
  "result_line st suffix =
     (case st of (target, target_datetime) \<Rightarrow>
        and_then (datetime_to_utc target_datetime) (\<lambda>u.
          (case target of
             None \<Rightarrow> Inl TypeError
           | Some v \<Rightarrow> Inr (u @ '' '' @ format_4f (to_double v) @ suffix))))"

definition air_item :: "string \<Rightarrow> period \<Rightarrow> error + real" where
  "air_item scale p =
     (let curr_temp = temperature p
      in Inr (if scale = ''C'' then celsius curr_temp else curr_temp))"

definition air_temperature :: "period list \<Rightarrow> string \<Rightarrow> int \<Rightarrow> string \<Rightarrow> error + string" where
  "air_temperature periods scale len limit =
     and_then (extremum_scan (air_item scale) periods len limit) (\<lambda>st. result_line st [])"

definition feels_like_item :: "string \<Rightarrow> period \<Rightarrow> error + real" where
  "feels_like_item scale p =
     (let curr_temp = temperature p;
          curr_humidity = relativeHumidity p
      in and_then (simplify_wind_speed (windSpeed p)) (\<lambda>curr_wind.
           (let curr_temp' =
                  (if curr_temp \<ge> 68 then calc_heat_index curr_temp curr_humidity
                   else if curr_temp \<le> 50 \<and> curr_wind > 3 then calc_wind_chill curr_temp curr_wind
                   else curr_temp)
            in Inr (if scale = ''C'' then celsius curr_temp' else curr_temp'))))"

definition feels_like_temperature :: "period list \<Rightarrow> string \<Rightarrow> int \<Rightarrow> string \<Rightarrow> error + string" where
  "feels_like_temperature periods scale len limit =
     and_then (extremum_scan (feels_like_item scale) periods len limit) (\<lambda>st. result_line st [])"

definition humidity_item :: "period \<Rightarrow> error + real" where
  "humidity_item p = Inr (relativeHumidity p)"

definition humidity :: "period list \<Rightarrow> int \<Rightarrow> string \<Rightarrow> error + string" where
  "humidity periods len limit =
     and_then (extremum_scan humidity_item periods len limit) (\<lambda>st. result_line st ''%'')"

definition wind_item :: "period \<Rightarrow> error + real" where
  "wind_item p = simplify_wind_speed (windSpeed p)"

definition wind_speed :: "period list \<Rightarrow> int \<Rightarrow> string \<Rightarrow> error + string" where
  "wind_speed periods len limit =
     and_then (extremum_scan wind_item periods len limit) (\<lambda>st. result_line st [])"

definition precipitation_item :: "period \<Rightarrow> error + real" where
  "precipitation_item p = Inr (probabilityOfPrecipitation p)"

definition chance_of_precipitation :: "period list \<Rightarrow> int \<Rightarrow> string \<Rightarrow> error + string" where
  "chance_of_precipitation periods len limit =
     and_then (extremum_scan precipitation_item periods len limit) (\<lambda>st. result_line st ''%'')"

definition get_latitude_and_longitude :: "geocode_match list \<Rightarrow> error + real \<times> real" where
  "get_latitude_and_longitude geocoding_data =
     and_then (subscript geocoding_data 0) (\<lambda>first.
     and_then (py_float (lat first)) (\<lambda>latitude.
     and_then (py_float (lon first)) (\<lambda>longitude. Inr (latitude, longitude))))"

text \<open>
  \<^verbatim>\<open>forecast_data['geometry']['coordinates']\<close> is a list of rings, a ring a list of
  coordinates, a coordinate the pair (longitude, latitude). The vertices of the first
  ring go into a Python set; the sums run over the set, and the division by its size
  raises \<open>ZeroDivisionError\<close> when the ring has no vertex.
\<close>

definition determine_forecast_location :: "(real \<times> real) list list \<Rightarrow> error + real \<times> real" where
  "determine_forecast_location coordinates =
     and_then (subscript coordinates 0) (\<lambda>polygon_coords.
       (let unique_coords = set polygon_coords;
            lon_sum = sum fst unique_coords;
            lat_sum = sum snd unique_coords
        in if card unique_coords = 0 then Inl ZeroDivisionError
           else Inr (lat_sum / real (card unique_coords), lon_sum / real (card unique_coords))))"

section \<open>weather\_stealer\_usa\_3000.py\<close>

definition available_num_of_time_periods :: "period list \<Rightarrow> int" where
  "available_num_of_time_periods periods = int (length periods)"

text \<open>
  One iteration of the loop of \<^verbatim>\<open>_get_query_results\<close>: the query is split at spaces, its
  fields are read left to right (a missing field raises \<open>IndexError\<close>, a length that is no
  integer \<open>ValueError\<close>), the length is cut down to the number of periods, and the line of
  the query is appended; a query of an unknown kind appends nothing.
\<close>

definition run_query :: "string \<Rightarrow> period list \<Rightarrow> string list \<Rightarrow> error + string list" where
  "run_query query periods query_results =
     (let args = split_on CHR '' '' query
      in and_then (subscript args 0) (\<lambda>a0.
           if a0 = ''TEMPERATURE'' then
             and_then (subscript args 1) (\<lambda>query_type.
             and_then (subscript args 2) (\<lambda>scale.
             and_then (subscript args 3) (\<lambda>a3.
             and_then (py_int a3) (\<lambda>len.
             and_then (subscript args 4) (\<lambda>limit.
               (let len' = min len (available_num_of_time_periods periods)
                in if query_type = ''AIR'' then
                     and_then (air_temperature periods scale len' limit)
                       (\<lambda>r. Inr (query_results @ [r]))
                   else if query_type = ''FEELS'' then
                     and_then (feels_like_temperature periods scale len' limit)
                       (\<lambda>r. Inr (query_results @ [r]))
                   else Inr query_results))))))
           else
             and_then (subscript args 1) (\<lambda>a1.
             and_then (py_int a1) (\<lambda>len.
             and_then (subscript args 2) (\<lambda>limit.
               (let query_type = a0;
                    len' = min len (available_num_of_time_periods periods)
                in if query_type = ''HUMIDITY'' then
                     and_then (humidity periods len' limit) (\<lambda>r. Inr (query_results @ [r]))
                   else if query_type = ''WIND'' then
                     and_then (wind_speed periods len' limit) (\<lambda>r. Inr (query_results @ [r]))
                   else if query_type = ''PRECIPITATION'' then
                     and_then (chance_of_precipitation periods len' limit)
                       (\<lambda>r. Inr (query_results @ [r]))
                   else Inr query_results))))))"

fun query_loop :: "string list \<Rightarrow> period list \<Rightarrow> string list \<Rightarrow> error + string list" where
  "query_loop [] periods query_results = Inr query_results"
| "query_loop (query # queries) periods query_results =
     and_then (run_query query periods query_results) (query_loop queries periods)"

definition get_query_results :: "string list \<Rightarrow> period list \<Rightarrow> error + string list" where
  "get_query_results queries periods = query_loop queries periods []"

section \<open>The two formulas\<close>

text \<open>
  Claim C4. The loop of \<open>calc_heat_index\<close> adds up the nine terms of the stated polynomial
  in \<open>t\<close> and \<open>h\<close>, and for a wind speed \<open>w > 0\<close> the loop of \<open>calc_wind_chill\<close> adds up
  \<open>35.74 + 0.6215 t - 35.75 w\<^sup>0\<^sup>.\<^sup>1\<^sup>6 + 0.4275 t w\<^sup>0\<^sup>.\<^sup>1\<^sup>6\<close>.
\<close>

theorem heat_index_wind_chill_formulas:
  assumes "0 < w"
  shows "calc_heat_index t h =
           - 42.379 + 2.04901523 * t + 10.14333127 * h - 0.22475541 * t * h
           - 0.00683783 * t\<^sup>2 - 0.05481717 * h\<^sup>2 + 0.00122874 * t\<^sup>2 * h
           + 0.00085282 * t * h\<^sup>2 - 0.00000199 * t\<^sup>2 * h\<^sup>2
         \<and> calc_wind_chill t' w =
           35.74 + 0.6215 * t' - 35.75 * w powr 0.16 + 0.4275 * t' * w powr 0.16"
  by (simp add: calc_heat_index_def calc_wind_chill_def power2_eq_square algebra_simps)

lemma powr_4_bounds: "1.2483 < (4::real) powr 0.16 \<and> (4::real) powr 0.16 < 1.2484"
proof -
  let ?x = "(4::real) powr 0.16"
  have pos: "0 < ?x" by simp
  have "?x ^ 25 = ?x powr 25" using pos by (simp add: powr_realpow)
  also have "\<dots> = 4 powr (0.16 * 25)" by (simp add: powr_powr)
  also have "\<dots> = 4 powr 4" by simp
  also have "\<dots> = 256" by (simp add: powr_numeral)
  finally have x25: "?x ^ 25 = 256" .
  have lo: "(1.2483::real) ^ 25 < 256" by (simp add: power_divide)
  have hi: "(256::real) < 1.2484 ^ 25" by (simp add: power_divide)
  have "1.2483 < ?x"
  proof (rule ccontr)
    assume "\<not> 1.2483 < ?x"
    then have "?x \<le> 1.2483" by simp
    then have "?x ^ 25 \<le> 1.2483 ^ 25" using pos by (intro power_mono) simp_all
    with x25 lo show False by simp
  qed
  moreover have "?x < 1.2484"
  proof (rule ccontr)
    assume "\<not> ?x < 1.2484"
    then have "1.2484 \<le> ?x" by simp
    then have "(1.2484::real) ^ 25 \<le> ?x ^ 25" by (intro power_mono) simp_all
    with x25 hi show False by simp
  qed
  ultimately show ?thesis by simp
qed

text \<open>
  The reference values: the heat index at 68 degrees and 50 percent is \<open>77.35084222\<close>, the
  wind chill at 50 degrees and 4 mph is \<open>66.815 - 14.375 \<sqdot> 4\<^sup>0\<^sup>.\<^sup>1\<^sup>6\<close>, between 48.869 and
  48.871.
\<close>

theorem heat_index_wind_chill_reference:
  "(0::real) < 4 \<and> calc_heat_index 68 50 = 77.35084222
   \<and> calc_wind_chill 50 4 = 66.815 - 14.375 * 4 powr 0.16
   \<and> 48.869 < calc_wind_chill 50 4 \<and> calc_wind_chill 50 4 < 48.871"
proof -
  have h: "(0::real) < 4" by simp
  from heat_index_wind_chill_formulas [OF h, of 68 50 50]
  have a: "calc_heat_index 68 50 = 77.35084222"
    and b: "calc_wind_chill 50 4 = 66.815 - 14.375 * 4 powr 0.16"
    by simp_all
  from powr_4_bounds b have "48.869 < calc_wind_chill 50 4" "calc_wind_chill 50 4 < 48.871"
    by simp_all
  with a b show ?thesis by simp
qed

section \<open>Rounding to doubles\<close>

lemma round_half_even_near: "\<bar>real_of_int (round_half_even x) - x\<bar> \<le> 1 / 2"
proof -
  have "real_of_int \<lfloor>x\<rfloor> \<le> x" "x < real_of_int \<lfloor>x\<rfloor> + 1" by linarith+
  then show ?thesis by (auto simp: round_half_even_def Let_def)
qed

lemma round_half_even_nonneg: "0 \<le> x \<Longrightarrow> 0 \<le> round_half_even x"
proof -
  assume "0 \<le> x"
  then have "0 \<le> \<lfloor>x\<rfloor>" by simp
  then show ?thesis by (auto simp: round_half_even_def Let_def)
qed

lemma round_half_even_of_int: "round_half_even (real_of_int n) = n"
  by (simp add: round_half_even_def Let_def)

lemma round_half_even_ge: "real_of_int n \<le> y \<Longrightarrow> n \<le> round_half_even y"
proof -
  assume "real_of_int n \<le> y"
  then have "n \<le> \<lfloor>y\<rfloor>" by (simp add: le_floor_iff)
  then show ?thesis by (auto simp: round_half_even_def Let_def)
qed

lemma round_half_even_le: "y \<le> real_of_int n \<Longrightarrow> round_half_even y \<le> n"
proof -
  assume a: "y \<le> real_of_int n"
  show ?thesis
  proof (cases "y = real_of_int n")
    case True
    then show ?thesis by (simp add: round_half_even_of_int)
  next
    case False
    with a have "y < real_of_int n" by simp
    then have "\<lfloor>y\<rfloor> < n" by (simp add: floor_less_iff)
    then have "\<lfloor>y\<rfloor> + 1 \<le> n" by simp
    then show ?thesis by (auto simp: round_half_even_def Let_def)
  qed
qed

lemma expo_eqI:
  assumes "2 powr real_of_int e \<le> \<bar>x\<bar>" and "\<bar>x\<bar> < 2 powr (real_of_int e + 1)" and "- 1022 \<le> e"
  shows "expo x = e"
proof -
  have pos: "0 < \<bar>x\<bar>" using assms(1) by (smt (verit) powr_gt_zero)
  have "real_of_int e \<le> log 2 \<bar>x\<bar>" using assms(1) pos by (simp add: le_log_iff)
  moreover have "log 2 \<bar>x\<bar> < real_of_int e + 1" using assms(2) pos by (simp add: log_less_iff)
  ultimately have "\<lfloor>log 2 \<bar>x\<bar>\<rfloor> = e" by (intro floor_unique) simp_all
  with assms(3) show ?thesis by (simp add: expo_def)
qed

lemma nearest_eval:
  assumes "expo x = e"
  shows "nearest x = real_of_int (round_half_even (x / 2 powr (real_of_int e - 52)))
                       * 2 powr (real_of_int e - 52)"
  using assms by (simp add: nearest_def Let_def)

lemma to_double_overflow:
  assumes "2 ^ 1024 \<le> x"
  shows "to_double x = PInf"
proof -
  have xpos: "0 < x" using assms by (smt (verit) zero_less_power)
  define e where "e = \<lfloor>log 2 \<bar>x\<bar>\<rfloor>"
  have "(2::real) powr 1024 \<le> x" using assms by simp
  then have "1024 \<le> log 2 x" using xpos by (simp add: le_log_iff)
  then have e1024: "1024 \<le> e" using xpos by (simp add: e_def le_floor_iff)
  then have ex: "expo x = e" by (simp add: expo_def e_def)
  have "real_of_int e \<le> log 2 x" using xpos by (simp add: e_def)
  then have le: "2 powr real_of_int e \<le> x" using xpos by (simp add: le_log_iff)
  define u where "u = (2::real) powr (real_of_int e - 52)"
  have upos: "0 < u" by (simp add: u_def)
  have split: "2 powr real_of_int e = 2 ^ 52 * u"
  proof -
    have "(2::real) powr real_of_int e = 2 powr (52 + (real_of_int e - 52))" by simp
    also have "\<dots> = 2 powr 52 * 2 powr (real_of_int e - 52)" by (rule powr_add)
    finally show ?thesis by (simp add: u_def)
  qed
  have "real_of_int (2 ^ 52) \<le> x / u" using le upos by (simp add: split pos_le_divide_eq)
  then have "(2 ^ 52 :: int) \<le> round_half_even (x / u)" by (rule round_half_even_ge)
  then have r52: "real_of_int (2 ^ 52) \<le> real_of_int (round_half_even (x / u))" by linarith
  have a: "real_of_int (2 ^ 52) * u \<le> real_of_int (round_half_even (x / u)) * u"
    using r52 upos by (rule mult_right_mono [OF _ less_imp_le])
  have c: "(2::real) powr 1024 \<le> 2 powr real_of_int e"
    using e1024 by (intro powr_mono) simp_all
  have b: "2 powr real_of_int e = real_of_int (2 ^ 52) * u"
    unfolding split by simp
  have n: "nearest x = real_of_int (round_half_even (x / u)) * u"
    unfolding u_def by (rule nearest_eval [OF ex])
  have "(2::real) powr 1024 \<le> nearest x"
    unfolding n using c a unfolding b by (rule order_trans)
  then have "2 ^ 1024 \<le> nearest x" by simp
  with xpos show ?thesis by (simp add: to_double_def Let_def)
qed

lemma expo_9_5: "expo (9 / 5) = 0"
  by (rule expo_eqI) simp_all

lemma to_double_9_5: "to_double (9 / 5) = Finite (8106479329266893 / 2 ^ 52)"
proof -
  have "nearest (9 / 5) = 8106479329266893 / 2 ^ 52"
    by (simp add: nearest_eval [OF expo_9_5] powr_neg_numeral round_half_even_def)
  then show ?thesis by (simp add: to_double_def Let_def)
qed

lemma expo_5_9: "expo (5 / 9) = - 1"
  by (rule expo_eqI) (simp_all add: powr_neg_numeral)

lemma to_double_5_9: "to_double (5 / 9) = Finite (5003999585967218 / 2 ^ 53)"
proof -
  have "nearest (5 / 9) = 5003999585967218 / 2 ^ 53"
    by (simp add: nearest_eval [OF expo_5_9] powr_neg_numeral round_half_even_def)
  then show ?thesis by (simp add: to_double_def Let_def)
qed


lemma to_double_evalI:
  assumes "expo x = e"
    and "real_of_int (round_half_even (x / 2 powr (real_of_int e - 52))) * 2 powr (real_of_int e - 52) = r"
    and "x \<noteq> 0" and "r \<noteq> 0" and "r < 2 ^ 1024" and "- (2 ^ 1024) < r"
  shows "to_double x = Finite r"
proof -
  have "nearest x = r" using assms(2) by (simp add: nearest_eval [OF assms(1)])
  with assms(3-6) show ?thesis by (simp add: to_double_def Let_def)
qed

lemma expo_big: "expo (3 * 2 ^ 1022) = 1023"
  by (rule expo_eqI) simp_all

lemma to_double_big: "to_double (3 * 2 ^ 1022) = Finite (3 * 2 ^ 1022)"
  by (rule to_double_evalI [OF expo_big]) (simp_all add: round_half_even_def)

lemma fahrenheit_double_big: "fahrenheit_double (Finite (3 * 2 ^ 1022)) = PInf"
proof -
  have "(2::real) ^ 1024 \<le> 3 * 2 ^ 1022 * (8106479329266893 / 2 ^ 52)" by simp
  then have "to_double (3 * 2 ^ 1022 * (8106479329266893 / 2 ^ 52)) = PInf"
    by (rule to_double_overflow)
  then have "fl_mul (Finite (3 * 2 ^ 1022)) (to_double (9 / 5)) = PInf"
    by (simp add: to_double_9_5 fl_mul_def is_finite_def value_of_def negative_def round_signed_def)
  then show ?thesis
    by (simp add: fahrenheit_double_def fl_add_def is_finite_def)
qed

lemma celsius_double_PInf: "celsius_double PInf = PInf"
  by (simp add: celsius_double_def fl_sub_def fl_neg_def fl_add_def fl_mul_def is_finite_def
      to_double_5_9 value_of_def negative_def)

lemma expo_36: "expo 36 = 5"
  by (rule expo_eqI) simp_all

lemma expo_68: "expo 68 = 6"
  by (rule expo_eqI) simp_all

lemma to_double_36: "to_double 36 = Finite 36"
  by (rule to_double_evalI [OF expo_36]) (simp_all add: round_half_even_def powr_neg_numeral)

lemma to_double_68: "to_double 68 = Finite 68"
  by (rule to_double_evalI [OF expo_68]) (simp_all add: round_half_even_def powr_neg_numeral)

lemma expo_c1: "expo (22517998136852481 / 1125899906842624) = 4"
  by (rule expo_eqI) simp_all

lemma to_double_c1: "to_double (22517998136852481 / 1125899906842624) = Finite 20"
  by (rule to_double_evalI [OF expo_c1]) (simp_all add: round_half_even_def powr_neg_numeral)

lemma expo_c2: "expo (40532396646334465 / 1125899906842624) = 5"
  by (rule expo_eqI) simp_all

lemma to_double_c2: "to_double (40532396646334465 / 1125899906842624) = Finite 36"
  by (rule to_double_evalI [OF expo_c2]) (simp_all add: round_half_even_def powr_neg_numeral)

lemma celsius_double_68: "celsius_double (Finite 68) = Finite 20"
  by (simp add: celsius_double_def fl_sub_def fl_neg_def fl_add_def fl_mul_def is_finite_def
      to_double_5_9 value_of_def negative_def round_signed_def to_double_36 to_double_c1)

lemma fahrenheit_double_20: "fahrenheit_double (Finite 20) = Finite 68"
  by (simp add: fahrenheit_double_def fl_add_def fl_mul_def is_finite_def
      to_double_9_5 value_of_def negative_def round_signed_def to_double_68 to_double_c2)

subsection \<open>The error of a rounding\<close>

text \<open>
  A rounding moves a number by at most the \<open>2\<^sup>5\<^sup>3\<close>-th part of its magnitude, or by half
  the distance of the subnormal numbers, which is far below \<open>2\<^sup>-\<^sup>1\<^sup>0\<^sup>0\<close>.
\<close>

lemma to_double_cases:
  assumes "x \<noteq> 0"
  shows "to_double x =
     (if 2 ^ 1024 \<le> nearest x then PInf
      else if nearest x \<le> - (2 ^ 1024) then NInf
      else if nearest x = 0 then (if x < 0 then NegZero else Finite 0)
      else Finite (nearest x))"
  using assms by (simp only: to_double_def Let_def if_False)

lemma nearest_zero: "nearest 0 = 0"
  by (simp add: nearest_def round_half_even_def)

lemma nearest_error: "\<bar>nearest y - y\<bar> \<le> \<bar>y\<bar> / 2 ^ 53 + 1 / 2 ^ 100"
proof (cases "y = 0")
  case True
  then show ?thesis by (simp add: nearest_zero)
next
  case False
  define e where "e = expo y"
  define u where "u = 2 powr (real_of_int e - 52)"
  have u0: "0 < u" by (simp add: u_def)
  have n: "nearest y = real_of_int (round_half_even (y / u)) * u"
    by (simp add: nearest_def Let_def e_def u_def)
  have "\<bar>real_of_int (round_half_even (y / u)) - y / u\<bar> \<le> 1 / 2" by (rule round_half_even_near)
  then have "\<bar>real_of_int (round_half_even (y / u)) - y / u\<bar> * u \<le> 1 / 2 * u"
    using u0 by (intro mult_right_mono) simp_all
  moreover have "\<bar>real_of_int (round_half_even (y / u)) - y / u\<bar> * u
      = \<bar>real_of_int (round_half_even (y / u)) * u - y\<bar>"
  proof -
    have "\<bar>real_of_int (round_half_even (y / u)) - y / u\<bar> * u
        = \<bar>(real_of_int (round_half_even (y / u)) - y / u) * u\<bar>"
      using u0 by (simp add: abs_mult)
    also have "(real_of_int (round_half_even (y / u)) - y / u) * u
        = real_of_int (round_half_even (y / u)) * u - y"
      using u0 by (simp add: left_diff_distrib)
    finally show ?thesis .
  qed
  ultimately have a: "\<bar>nearest y - y\<bar> \<le> u / 2" by (simp add: n)
  have b: "u / 2 \<le> \<bar>y\<bar> / 2 ^ 53 + 1 / 2 ^ 100"
  proof (cases "- 1022 \<le> \<lfloor>log 2 \<bar>y\<bar>\<rfloor>")
    case True
    then have "e = \<lfloor>log 2 \<bar>y\<bar>\<rfloor>" by (simp add: e_def expo_def)
    then have "real_of_int e \<le> log 2 \<bar>y\<bar>" by simp
    then have le: "2 powr real_of_int e \<le> \<bar>y\<bar>" using False by (simp add: le_log_iff)
    have "u = 2 powr real_of_int e * 2 powr (- 52)"
      unfolding u_def by (simp add: powr_add [symmetric])
    also have "\<dots> = 2 powr real_of_int e / 2 ^ 52" by (simp add: powr_neg_numeral)
    finally have "u / 2 = 2 powr real_of_int e / 2 ^ 53" by simp
    also have "\<dots> \<le> \<bar>y\<bar> / 2 ^ 53" using le by (simp add: divide_right_mono)
    finally show ?thesis by simp
  next
    case False
    then have "e = - 1022" by (simp add: e_def expo_def)
    then have "u = 2 powr (- 1074)" by (simp add: u_def)
    also have "\<dots> \<le> 2 powr (- 99)" by (rule powr_mono) simp_all
    also have "\<dots> = 1 / 2 ^ 99" by (simp add: powr_neg_numeral)
    finally have "u / 2 \<le> 1 / 2 ^ 100" by simp
    moreover have "0 \<le> \<bar>y\<bar> / 2 ^ 53" by simp
    ultimately show ?thesis by linarith
  qed
  from a b show ?thesis by linarith
qed

lemma round_signed_value:
  assumes "\<bar>y\<bar> \<le> 2 ^ 1010"
  shows "is_finite (round_signed s y) \<and> value_of (round_signed s y) = nearest y"
proof (cases "y = 0")
  case True
  then show ?thesis by (simp add: round_signed_def nearest_zero is_finite_def value_of_def)
next
  case False
  have e: "\<bar>nearest y - y\<bar> \<le> \<bar>y\<bar> / 2 ^ 53 + 1 / 2 ^ 100" by (rule nearest_error)
  have "\<bar>y\<bar> / 2 ^ 53 \<le> \<bar>y\<bar>" by (simp add: field_simps)
  with e have "\<bar>nearest y\<bar> \<le> 2 * \<bar>y\<bar> + 1" by simp
  also have "\<dots> \<le> 2 * 2 ^ 1010 + 1" using assms by simp
  also have "\<dots> < (2::real) ^ 1024" by simp
  finally have b: "\<bar>nearest y\<bar> < 2 ^ 1024" .
  then have nb: "\<not> 2 ^ 1024 \<le> nearest y" "\<not> nearest y \<le> - (2 ^ 1024)" by linarith+
  have r: "round_signed s y = to_double y" using False by (simp add: round_signed_def)
  show ?thesis
  proof (cases "nearest y = 0")
    case True
    then show ?thesis unfolding r to_double_cases [OF False] using nb
      by (simp only: if_True if_False is_finite_def value_of_def double.case simp_thms split: if_split)
  next
    case False
    then show ?thesis unfolding r to_double_cases [OF \<open>y \<noteq> 0\<close>] using nb
      by (simp only: if_True if_False is_finite_def value_of_def double.case simp_thms)
  qed
qed

lemma fl_mul_finite:
  assumes "is_finite a" and "is_finite b"
  shows "fl_mul a b = round_signed (negative a \<noteq> negative b) (value_of a * value_of b)"
  using assms by (auto simp: fl_mul_def is_finite_def)

lemma fl_add_finite:
  assumes "is_finite a" and "is_finite b"
  shows "fl_add a b = round_signed (negative a \<and> negative b) (value_of a + value_of b)"
  using assms by (auto simp: fl_add_def is_finite_def)

lemma fl_sub_finite:
  assumes "is_finite a"
  shows "fl_sub a (Finite 32) = round_signed (negative a \<and> negative (Finite (- 32))) (value_of a - 32)"
  using assms by (simp add: fl_sub_def fl_neg_def fl_add_finite is_finite_def value_of_def)


lemma fl_mul_value:
  assumes "is_finite a" and "is_finite b" and "\<bar>value_of a * value_of b\<bar> \<le> 2 ^ 1010"
  shows "is_finite (fl_mul a b) \<and> value_of (fl_mul a b) = nearest (value_of a * value_of b)"
  unfolding fl_mul_finite [OF assms(1,2)] by (rule round_signed_value [OF assms(3)])

lemma fl_add_value:
  assumes "is_finite a" and "is_finite b" and "\<bar>value_of a + value_of b\<bar> \<le> 2 ^ 1010"
  shows "is_finite (fl_add a b) \<and> value_of (fl_add a b) = nearest (value_of a + value_of b)"
  unfolding fl_add_finite [OF assms(1,2)] by (rule round_signed_value [OF assms(3)])

lemma fl_sub_value:
  assumes "is_finite a" and "\<bar>value_of a - 32\<bar> \<le> 2 ^ 1010"
  shows "is_finite (fl_sub a (Finite 32))
    \<and> value_of (fl_sub a (Finite 32)) = nearest (value_of a - 32)"
  unfolding fl_sub_finite [OF assms(1)] by (rule round_signed_value [OF assms(2)])

lemma nearest_bound: "\<bar>nearest y\<bar> \<le> 2 * \<bar>y\<bar> + 1"
proof -
  have e: "\<bar>nearest y - y\<bar> \<le> \<bar>y\<bar> / 2 ^ 53 + 1 / 2 ^ 100" by (rule nearest_error)
  have "\<bar>y\<bar> / 2 ^ 53 \<le> \<bar>y\<bar>" by (simp add: field_simps)
  with e show ?thesis by simp
qed

lemma abs_chain3:
  fixes p q r c k :: real
  shows "\<bar>p - c\<bar> \<le> \<bar>q - c\<bar> + \<bar>r - (q + k)\<bar> + \<bar>p - (r - k)\<bar>"
  by linarith

text \<open>Four roundings in a row, in the order of \<open>celsius (fahrenheit x)\<close>.\<close>

lemma round_trip_error_cf:
  fixes x n1 n2 n3 n4 :: real
  assumes e1: "\<bar>n1 - x * (8106479329266893 / 2 ^ 52)\<bar>
      \<le> \<bar>x * (8106479329266893 / 2 ^ 52)\<bar> / 2 ^ 53 + 1 / 2 ^ 100"
    and e2: "\<bar>n2 - (n1 + 32)\<bar> \<le> \<bar>n1 + 32\<bar> / 2 ^ 53 + 1 / 2 ^ 100"
    and e3: "\<bar>n3 - (n2 - 32)\<bar> \<le> \<bar>n2 - 32\<bar> / 2 ^ 53 + 1 / 2 ^ 100"
    and e4: "\<bar>n4 - n3 * (5003999585967218 / 2 ^ 53)\<bar>
      \<le> \<bar>n3 * (5003999585967218 / 2 ^ 53)\<bar> / 2 ^ 53 + 1 / 2 ^ 100"
  shows "\<bar>n4 - x\<bar> \<le> (\<bar>x\<bar> + 32) / 2 ^ 50"
proof -
  define X where "X = \<bar>x\<bar>"
  define D1 where "D1 = \<bar>n1 - x * (8106479329266893 / 2 ^ 52)\<bar>"
  define D2 where "D2 = \<bar>n2 - (n1 + 32)\<bar>"
  define D3 where "D3 = \<bar>n3 - (n2 - 32)\<bar>"
  define D4 where "D4 = \<bar>n4 - n3 * (5003999585967218 / 2 ^ 53)\<bar>"
  define N1 where "N1 = \<bar>n1\<bar>"
  define N3 where "N3 = \<bar>n3\<bar>"
  have x0: "0 \<le> X" by (simp add: X_def)
  have xa: "\<bar>x * (8106479329266893 / 2 ^ 52)\<bar> = X * (8106479329266893 / 2 ^ 52)"
    by (simp add: X_def abs_mult)
  have nb: "\<bar>n3 * (5003999585967218 / 2 ^ 53)\<bar> = N3 * (5003999585967218 / 2 ^ 53)"
    by (simp add: N3_def abs_mult)
  have b1: "D1 \<le> X * (8106479329266893 / 2 ^ 52) / 2 ^ 53 + 1 / 2 ^ 100"
    using e1 unfolding xa D1_def .
  have m1: "N1 \<le> X * (8106479329266893 / 2 ^ 52) + D1"
    unfolding N1_def D1_def xa [symmetric] by linarith
  have "\<bar>n1 + 32\<bar> \<le> N1 + 32" unfolding N1_def by linarith
  then have b2: "D2 \<le> (N1 + 32) / 2 ^ 53 + 1 / 2 ^ 100"
    using e2 unfolding D2_def by (simp add: field_simps)
  have "\<bar>n2 - 32\<bar> \<le> N1 + D2" unfolding N1_def D2_def by linarith
  then have b3: "D3 \<le> (N1 + D2) / 2 ^ 53 + 1 / 2 ^ 100"
    using e3 unfolding D3_def by (simp add: field_simps)
  have "\<bar>n3 - x * (8106479329266893 / 2 ^ 52)\<bar> \<le> D1 + D2 + D3"
    unfolding D1_def D2_def D3_def by (rule abs_chain3)
  then have m3: "N3 \<le> X * (8106479329266893 / 2 ^ 52) + D1 + D2 + D3"
    unfolding N3_def xa [symmetric] by linarith
  have b4: "D4 \<le> N3 * (5003999585967218 / 2 ^ 53) / 2 ^ 53 + 1 / 2 ^ 100"
    using e4 unfolding nb D4_def .
  have t: "\<bar>n4 - x\<bar> \<le> D4 + (5003999585967218 / 2 ^ 53) * (D1 + D2 + D3)
      + X * (1 / 2 ^ 53)"
  proof -
    have "n4 - x = (n4 - n3 * (5003999585967218 / 2 ^ 53))
        + (5003999585967218 / 2 ^ 53) * ((n3 - (n2 - 32)) + (n2 - (n1 + 32))
            + (n1 - x * (8106479329266893 / 2 ^ 52)))
        + x * ((8106479329266893 / 2 ^ 52) * (5003999585967218 / 2 ^ 53) - 1)"
      by (simp add: algebra_simps)
    moreover have "\<bar>x * ((8106479329266893 / 2 ^ 52) * (5003999585967218 / 2 ^ 53) - 1)\<bar>
        \<le> X * (1 / 2 ^ 53)"
      unfolding abs_mult X_def by (intro mult_left_mono) simp_all
    moreover have "\<bar>(5003999585967218 / 2 ^ 53) * ((n3 - (n2 - 32)) + (n2 - (n1 + 32))
            + (n1 - x * (8106479329266893 / 2 ^ 52)))\<bar>
        \<le> (5003999585967218 / 2 ^ 53) * (D1 + D2 + D3)"
      unfolding abs_mult D1_def D2_def D3_def by (intro mult_mono) simp_all
    ultimately show ?thesis unfolding D4_def by linarith
  qed
  have d0: "0 \<le> D1" "0 \<le> D2" "0 \<le> D3" "0 \<le> D4" "0 \<le> N1" "0 \<le> N3"
    by (simp_all add: D1_def D2_def D3_def D4_def N1_def N3_def)
  have "D4 + (5003999585967218 / 2 ^ 53) * (D1 + D2 + D3) + X * (1 / 2 ^ 53)
      \<le> (X + 32) / 2 ^ 50"
    using b1 m1 b2 b3 m3 b4 x0 d0 by (simp add: field_simps)
  with t show ?thesis unfolding X_def by linarith
qed


text \<open>The same in the order of \<open>fahrenheit (celsius x)\<close>.\<close>

lemma abs_chain2:
  fixes p q c :: real
  shows "\<bar>p\<bar> \<le> \<bar>c\<bar> + \<bar>p - c\<bar>"
  by linarith

lemma round_trip_split:
  fixes x n1 n2 n3 n4 a b :: real
  shows "n4 - x = (n4 - (n3 + 32)) + (n3 - n2 * a) + a * (n2 - n1 * b)
      + (a * b) * (n1 - (x - 32)) + (x - 32) * (a * b - 1)"
  by (simp add: algebra_simps)

lemma round_trip_error_fc:
  fixes x n1 n2 n3 n4 :: real
  assumes e1: "\<bar>n1 - (x - 32)\<bar> \<le> \<bar>x - 32\<bar> / 2 ^ 53 + 1 / 2 ^ 100"
    and e2: "\<bar>n2 - n1 * (5003999585967218 / 2 ^ 53)\<bar>
      \<le> \<bar>n1 * (5003999585967218 / 2 ^ 53)\<bar> / 2 ^ 53 + 1 / 2 ^ 100"
    and e3: "\<bar>n3 - n2 * (8106479329266893 / 2 ^ 52)\<bar>
      \<le> \<bar>n2 * (8106479329266893 / 2 ^ 52)\<bar> / 2 ^ 53 + 1 / 2 ^ 100"
    and e4: "\<bar>n4 - (n3 + 32)\<bar> \<le> \<bar>n3 + 32\<bar> / 2 ^ 53 + 1 / 2 ^ 100"
  shows "\<bar>n4 - x\<bar> \<le> (\<bar>x\<bar> + 32) / 2 ^ 50"
proof -
  define X where "X = \<bar>x\<bar>"
  define D1 where "D1 = \<bar>n1 - (x - 32)\<bar>"
  define D2 where "D2 = \<bar>n2 - n1 * (5003999585967218 / 2 ^ 53)\<bar>"
  define D3 where "D3 = \<bar>n3 - n2 * (8106479329266893 / 2 ^ 52)\<bar>"
  define D4 where "D4 = \<bar>n4 - (n3 + 32)\<bar>"
  define N1 where "N1 = \<bar>n1\<bar>"
  define N2 where "N2 = \<bar>n2\<bar>"
  define N3 where "N3 = \<bar>n3\<bar>"
  have x0: "0 \<le> X" by (simp add: X_def)
  have x32: "\<bar>x - 32\<bar> \<le> X + 32" unfolding X_def by linarith
  have n1b: "\<bar>n1 * (5003999585967218 / 2 ^ 53)\<bar> = N1 * (5003999585967218 / 2 ^ 53)"
    by (simp add: N1_def abs_mult)
  have n2a: "\<bar>n2 * (8106479329266893 / 2 ^ 52)\<bar> = N2 * (8106479329266893 / 2 ^ 52)"
    by (simp add: N2_def abs_mult)
  have b1: "D1 \<le> (X + 32) / 2 ^ 53 + 1 / 2 ^ 100"
    using e1 x32 unfolding D1_def by (simp add: field_simps)
  have "\<bar>n1\<bar> \<le> \<bar>x - 32\<bar> + \<bar>n1 - (x - 32)\<bar>" by (rule abs_chain2)
  then have m1: "N1 \<le> X + 32 + D1" using x32 unfolding N1_def D1_def by linarith
  have b2: "D2 \<le> N1 * (5003999585967218 / 2 ^ 53) / 2 ^ 53 + 1 / 2 ^ 100"
    using e2 unfolding n1b D2_def .
  have "\<bar>n2\<bar> \<le> \<bar>n1 * (5003999585967218 / 2 ^ 53)\<bar> + \<bar>n2 - n1 * (5003999585967218 / 2 ^ 53)\<bar>"
    by (rule abs_chain2)
  then have m2: "N2 \<le> N1 * (5003999585967218 / 2 ^ 53) + D2"
    unfolding n1b N2_def D2_def .
  have b3: "D3 \<le> N2 * (8106479329266893 / 2 ^ 52) / 2 ^ 53 + 1 / 2 ^ 100"
    using e3 unfolding n2a D3_def .
  have "\<bar>n3\<bar> \<le> \<bar>n2 * (8106479329266893 / 2 ^ 52)\<bar> + \<bar>n3 - n2 * (8106479329266893 / 2 ^ 52)\<bar>"
    by (rule abs_chain2)
  then have m3: "N3 \<le> N2 * (8106479329266893 / 2 ^ 52) + D3"
    unfolding n2a N3_def D3_def .
  have "\<bar>n3 + 32\<bar> \<le> N3 + 32" unfolding N3_def by linarith
  then have b4: "D4 \<le> (N3 + 32) / 2 ^ 53 + 1 / 2 ^ 100"
    using e4 unfolding D4_def by (simp add: field_simps)
  have t: "\<bar>n4 - x\<bar> \<le> D4 + D3 + (8106479329266893 / 2 ^ 52) * D2 + 2 * D1
      + (X + 32) * (1 / 2 ^ 53)"
  proof -
    have "n4 - x = (n4 - (n3 + 32)) + (n3 - n2 * (8106479329266893 / 2 ^ 52))
        + (8106479329266893 / 2 ^ 52) * (n2 - n1 * (5003999585967218 / 2 ^ 53))
        + ((8106479329266893 / 2 ^ 52) * (5003999585967218 / 2 ^ 53)) * (n1 - (x - 32))
        + (x - 32) * ((8106479329266893 / 2 ^ 52) * (5003999585967218 / 2 ^ 53) - 1)"
      by (rule round_trip_split)
    moreover have "\<bar>(x - 32) * ((8106479329266893 / 2 ^ 52) * (5003999585967218 / 2 ^ 53) - 1)\<bar>
        \<le> (X + 32) * (1 / 2 ^ 53)"
      unfolding abs_mult using x32 by (intro mult_mono) simp_all
    moreover have "\<bar>(8106479329266893 / 2 ^ 52) * (n2 - n1 * (5003999585967218 / 2 ^ 53))\<bar>
        \<le> (8106479329266893 / 2 ^ 52) * D2"
      unfolding abs_mult D2_def by (intro mult_mono) simp_all
    moreover have "\<bar>((8106479329266893 / 2 ^ 52) * (5003999585967218 / 2 ^ 53)) * (n1 - (x - 32))\<bar>
        \<le> 2 * D1"
      unfolding abs_mult D1_def by (intro mult_mono) simp_all
    ultimately show ?thesis unfolding D4_def D3_def by linarith
  qed
  have d0: "0 \<le> D1" "0 \<le> D2" "0 \<le> D3" "0 \<le> D4" "0 \<le> N1" "0 \<le> N2" "0 \<le> N3"
    by (simp_all add: D1_def D2_def D3_def D4_def N1_def N2_def N3_def)
  have "D4 + D3 + (8106479329266893 / 2 ^ 52) * D2 + 2 * D1 + (X + 32) * (1 / 2 ^ 53)
      \<le> (X + 32) / 2 ^ 50"
    using b1 m1 b2 m2 b3 m3 b4 x0 d0 by (simp add: field_simps)
  with t show ?thesis unfolding X_def by linarith
qed

text \<open>No rounding of the round trips overflows up to \<open>2\<^sup>1\<^sup>0\<^sup>0\<^sup>0\<close>.\<close>

lemma celsius_fahrenheit_double:
  assumes "\<bar>x\<bar> \<le> 2 ^ 1000"
  shows "is_finite (celsius_double (fahrenheit_double (Finite x)))
     \<and> \<bar>value_of (celsius_double (fahrenheit_double (Finite x))) - x\<bar> \<le> (\<bar>x\<bar> + 32) / 2 ^ 50"
proof -
  define n1 where "n1 = nearest (x * (8106479329266893 / 2 ^ 52))"
  define n2 where "n2 = nearest (n1 + 32)"
  define n3 where "n3 = nearest (n2 - 32)"
  define n4 where "n4 = nearest (n3 * (5003999585967218 / 2 ^ 53))"
  have fin: "is_finite (Finite x)" "is_finite (Finite 32)"
    "is_finite (Finite (8106479329266893 / 2 ^ 52))" "is_finite (Finite (5003999585967218 / 2 ^ 53))"
    by (simp_all add: is_finite_def)
  have val: "value_of (Finite x) = x" "value_of (Finite 32) = 32"
    "value_of (Finite (8106479329266893 / 2 ^ 52)) = 8106479329266893 / 2 ^ 52"
    "value_of (Finite (5003999585967218 / 2 ^ 53)) = 5003999585967218 / 2 ^ 53"
    by (simp_all add: value_of_def)
  have r1: "\<bar>x * (8106479329266893 / 2 ^ 52)\<bar> \<le> 2 ^ 1001"
  proof -
    have "\<bar>x * (8106479329266893 / 2 ^ 52)\<bar> = \<bar>x\<bar> * (8106479329266893 / 2 ^ 52)"
      by (simp add: abs_mult)
    also have "\<dots> \<le> \<bar>x\<bar> * 2" by (intro mult_left_mono) simp_all
    also have "\<dots> \<le> 2 ^ 1000 * 2" using assms by (intro mult_right_mono) simp_all
    finally show ?thesis by simp
  qed
  have s1: "is_finite (fl_mul (Finite x) (Finite (8106479329266893 / 2 ^ 52)))
      \<and> value_of (fl_mul (Finite x) (Finite (8106479329266893 / 2 ^ 52))) = n1"
    unfolding n1_def using fl_mul_value [OF fin(1) fin(3)] r1 unfolding val by simp
  have "\<bar>n1\<bar> \<le> 2 * \<bar>x * (8106479329266893 / 2 ^ 52)\<bar> + 1"
    unfolding n1_def by (rule nearest_bound)
  with r1 have m1: "\<bar>n1\<bar> \<le> 2 ^ 1003" by simp
  then have r2: "\<bar>n1 + 32\<bar> \<le> 2 ^ 1004" by simp
  have s2: "is_finite (fahrenheit_double (Finite x))
      \<and> value_of (fahrenheit_double (Finite x)) = n2"
    unfolding fahrenheit_double_def to_double_9_5 n2_def
    using fl_add_value [OF conjunct1 [OF s1] fin(2)] r2 s1 unfolding val by simp
  have "\<bar>n2\<bar> \<le> 2 * \<bar>n1 + 32\<bar> + 1" unfolding n2_def by (rule nearest_bound)
  with r2 have m2: "\<bar>n2\<bar> \<le> 2 ^ 1006" by simp
  then have r3: "\<bar>n2 - 32\<bar> \<le> 2 ^ 1007" by simp
  have s3: "is_finite (fl_sub (fahrenheit_double (Finite x)) (Finite 32))
      \<and> value_of (fl_sub (fahrenheit_double (Finite x)) (Finite 32)) = n3"
    unfolding n3_def using fl_sub_value [OF conjunct1 [OF s2]] r3 s2 by simp
  have "\<bar>n3\<bar> \<le> 2 * \<bar>n2 - 32\<bar> + 1" unfolding n3_def by (rule nearest_bound)
  with r3 have m3: "\<bar>n3\<bar> \<le> 2 ^ 1009" by simp
  have r4: "\<bar>n3 * (5003999585967218 / 2 ^ 53)\<bar> \<le> 2 ^ 1010"
  proof -
    have "\<bar>n3 * (5003999585967218 / 2 ^ 53)\<bar> = \<bar>n3\<bar> * (5003999585967218 / 2 ^ 53)"
      by (simp add: abs_mult)
    also have "\<dots> \<le> \<bar>n3\<bar> * 1" by (intro mult_left_mono) simp_all
    finally show ?thesis using m3 by simp
  qed
  have s4: "is_finite (celsius_double (fahrenheit_double (Finite x)))
      \<and> value_of (celsius_double (fahrenheit_double (Finite x))) = n4"
    unfolding celsius_double_def to_double_5_9 n4_def
    using fl_mul_value [OF conjunct1 [OF s3] fin(4)] r4 s3 unfolding val by simp
  have "\<bar>n4 - x\<bar> \<le> (\<bar>x\<bar> + 32) / 2 ^ 50"
    unfolding n4_def n3_def n2_def n1_def
    by (rule round_trip_error_cf) (rule nearest_error)+
  with s4 show ?thesis by simp
qed


lemma fahrenheit_celsius_double:
  assumes "\<bar>x\<bar> \<le> 2 ^ 1000"
  shows "is_finite (fahrenheit_double (celsius_double (Finite x)))
     \<and> \<bar>value_of (fahrenheit_double (celsius_double (Finite x))) - x\<bar> \<le> (\<bar>x\<bar> + 32) / 2 ^ 50"
proof -
  define n1 where "n1 = nearest (x - 32)"
  define n2 where "n2 = nearest (n1 * (5003999585967218 / 2 ^ 53))"
  define n3 where "n3 = nearest (n2 * (8106479329266893 / 2 ^ 52))"
  define n4 where "n4 = nearest (n3 + 32)"
  have fin: "is_finite (Finite x)" "is_finite (Finite 32)"
    "is_finite (Finite (8106479329266893 / 2 ^ 52))" "is_finite (Finite (5003999585967218 / 2 ^ 53))"
    by (simp_all add: is_finite_def)
  have val: "value_of (Finite x) = x" "value_of (Finite 32) = 32"
    "value_of (Finite (8106479329266893 / 2 ^ 52)) = 8106479329266893 / 2 ^ 52"
    "value_of (Finite (5003999585967218 / 2 ^ 53)) = 5003999585967218 / 2 ^ 53"
    by (simp_all add: value_of_def)
  have r1: "\<bar>x - 32\<bar> \<le> 2 ^ 1001" using assms by simp
  have s1: "is_finite (fl_sub (Finite x) (Finite 32))
      \<and> value_of (fl_sub (Finite x) (Finite 32)) = n1"
    unfolding n1_def using fl_sub_value [OF fin(1)] r1 unfolding val by simp
  have "\<bar>n1\<bar> \<le> 2 * \<bar>x - 32\<bar> + 1" unfolding n1_def by (rule nearest_bound)
  with r1 have m1: "\<bar>n1\<bar> \<le> 2 ^ 1003" by simp
  have r2: "\<bar>n1 * (5003999585967218 / 2 ^ 53)\<bar> \<le> 2 ^ 1003"
  proof -
    have "\<bar>n1 * (5003999585967218 / 2 ^ 53)\<bar> = \<bar>n1\<bar> * (5003999585967218 / 2 ^ 53)"
      by (simp add: abs_mult)
    also have "\<dots> \<le> \<bar>n1\<bar> * 1" by (intro mult_left_mono) simp_all
    finally show ?thesis using m1 by simp
  qed
  have s2: "is_finite (celsius_double (Finite x)) \<and> value_of (celsius_double (Finite x)) = n2"
    unfolding celsius_double_def to_double_5_9 n2_def
    using fl_mul_value [OF conjunct1 [OF s1] fin(4)] r2 s1 unfolding val by simp
  have "\<bar>n2\<bar> \<le> 2 * \<bar>n1 * (5003999585967218 / 2 ^ 53)\<bar> + 1"
    unfolding n2_def by (rule nearest_bound)
  with r2 have m2: "\<bar>n2\<bar> \<le> 2 ^ 1005" by simp
  have r3: "\<bar>n2 * (8106479329266893 / 2 ^ 52)\<bar> \<le> 2 ^ 1006"
  proof -
    have "\<bar>n2 * (8106479329266893 / 2 ^ 52)\<bar> = \<bar>n2\<bar> * (8106479329266893 / 2 ^ 52)"
      by (simp add: abs_mult)
    also have "\<dots> \<le> \<bar>n2\<bar> * 2" by (intro mult_left_mono) simp_all
    finally show ?thesis using m2 by simp
  qed
  have s3: "is_finite (fl_mul (celsius_double (Finite x)) (Finite (8106479329266893 / 2 ^ 52)))
      \<and> value_of (fl_mul (celsius_double (Finite x)) (Finite (8106479329266893 / 2 ^ 52))) = n3"
    unfolding n3_def using fl_mul_value [OF conjunct1 [OF s2] fin(3)] r3 s2 unfolding val by simp
  have "\<bar>n3\<bar> \<le> 2 * \<bar>n2 * (8106479329266893 / 2 ^ 52)\<bar> + 1"
    unfolding n3_def by (rule nearest_bound)
  with r3 have m3: "\<bar>n3\<bar> \<le> 2 ^ 1008" by simp
  then have r4: "\<bar>n3 + 32\<bar> \<le> 2 ^ 1009" by simp
  have s4: "is_finite (fahrenheit_double (celsius_double (Finite x)))
      \<and> value_of (fahrenheit_double (celsius_double (Finite x))) = n4"
    unfolding fahrenheit_double_def to_double_9_5 n4_def
    using fl_add_value [OF conjunct1 [OF s3] fin(2)] r4 s3 unfolding val by simp
  have "\<bar>n4 - x\<bar> \<le> (\<bar>x\<bar> + 32) / 2 ^ 50"
    unfolding n4_def n3_def n2_def n1_def
    by (rule round_trip_error_fc) (rule nearest_error)+
  with s4 show ?thesis by simp
qed

section \<open>The unit conversions\<close>

text \<open>
  Claim C5 as stated fails on doubles: \<open>3 \<sqdot> 2\<^sup>1\<^sup>0\<^sup>2\<^sup>2\<close> (about \<open>1.35 \<sqdot> 10\<^sup>3\<^sup>0\<^sup>8\<close>) is a finite
  double, its conversion to Fahrenheit overflows to infinity, and the conversion back to
  Celsius stays infinite, which is within no tolerance of the input.
\<close>

theorem conversion_round_trip_overflow:
  "to_double (3 * 2 ^ 1022) = Finite (3 * 2 ^ 1022)
   \<and> fahrenheit_double (Finite (3 * 2 ^ 1022)) = PInf
   \<and> celsius_double (fahrenheit_double (Finite (3 * 2 ^ 1022))) = PInf"
  using to_double_big fahrenheit_double_big celsius_double_PInf
  by (simp only: simp_thms)

text \<open>
  Claim C5, amended. Over exact arithmetic the two unit conversions are inverse to each
  other: \<open>celsius (fahrenheit x) = x\<close> and \<open>fahrenheit (celsius x) = x\<close> for every real \<open>x\<close>.
  On doubles, for every \<open>x\<close> of magnitude up to \<open>2\<^sup>1\<^sup>0\<^sup>0\<^sup>0\<close>, each of the two round trips returns
  a finite double that differs from \<open>x\<close> by at most \<open>(\<bar>x\<bar> + 32) / 2\<^sup>5\<^sup>0\<close>. The round trip of
  the specification's example is exact: 68 degrees Fahrenheit are 20 degrees Celsius, and
  these are 68 degrees Fahrenheit again.
\<close>

theorem conversion_round_trip:
  "celsius (fahrenheit x) = x \<and> fahrenheit (celsius x) = x
   \<and> (\<bar>x\<bar> \<le> 2 ^ 1000 \<longrightarrow>
        is_finite (celsius_double (fahrenheit_double (Finite x)))
        \<and> \<bar>value_of (celsius_double (fahrenheit_double (Finite x))) - x\<bar> \<le> (\<bar>x\<bar> + 32) / 2 ^ 50
        \<and> is_finite (fahrenheit_double (celsius_double (Finite x)))
        \<and> \<bar>value_of (fahrenheit_double (celsius_double (Finite x))) - x\<bar> \<le> (\<bar>x\<bar> + 32) / 2 ^ 50)
   \<and> celsius_double (Finite 68) = Finite 20
   \<and> fahrenheit_double (celsius_double (Finite 68)) = Finite 68"
proof -
  have a: "celsius (fahrenheit x) = x \<and> fahrenheit (celsius x) = x"
    by (simp add: celsius_def fahrenheit_def field_simps)
  have b: "\<bar>x\<bar> \<le> 2 ^ 1000 \<longrightarrow>
        is_finite (celsius_double (fahrenheit_double (Finite x)))
        \<and> \<bar>value_of (celsius_double (fahrenheit_double (Finite x))) - x\<bar> \<le> (\<bar>x\<bar> + 32) / 2 ^ 50
        \<and> is_finite (fahrenheit_double (celsius_double (Finite x)))
        \<and> \<bar>value_of (fahrenheit_double (celsius_double (Finite x))) - x\<bar> \<le> (\<bar>x\<bar> + 32) / 2 ^ 50"
    using celsius_fahrenheit_double [of x] fahrenheit_celsius_double [of x] by blast
  have c: "celsius_double (Finite 68) = Finite 20
     \<and> fahrenheit_double (celsius_double (Finite 68)) = Finite 68"
    by (simp add: celsius_double_68 fahrenheit_double_20)
  from a b c show ?thesis by blast
qed

text \<open>The round trip from 20 degrees Celsius: within the tolerance, and in fact exact.\<close>

theorem conversion_round_trip_witness:
  "\<bar>20::real\<bar> \<le> 2 ^ 1000
   \<and> is_finite (celsius_double (fahrenheit_double (Finite 20)))
   \<and> \<bar>value_of (celsius_double (fahrenheit_double (Finite 20))) - 20\<bar> \<le> (\<bar>20\<bar> + 32) / 2 ^ 50
   \<and> celsius_double (fahrenheit_double (Finite 20)) = Finite 20"
proof -
  have h: "\<bar>20::real\<bar> \<le> 2 ^ 1000" by simp
  from conversion_round_trip [of 20] h
  have "is_finite (celsius_double (fahrenheit_double (Finite 20)))
   \<and> \<bar>value_of (celsius_double (fahrenheit_double (Finite 20))) - 20\<bar> \<le> (\<bar>20\<bar> + 32) / 2 ^ 50"
    by blast
  moreover have "celsius_double (fahrenheit_double (Finite 20)) = Finite 20"
    by (simp add: celsius_double_68 fahrenheit_double_20)
  ultimately show ?thesis using h by blast
qed

section \<open>The extremum scan\<close>

lemma process_curr_item_Some:
  "process_curr_item c (Some t) ts td limit =
     (if better limit c t then (Some c, Some ts) else (Some t, td))"
  by (simp add: process_curr_item_def better_def)

lemma process_curr_item_None:
  "process_curr_item c None ts td limit = (Some c, Some ts)"
  by (simp add: process_curr_item_def)

lemma better_trans1: "better limit b a \<Longrightarrow> \<not> better limit b c \<Longrightarrow> better limit c a"
  by (auto simp: better_def)

lemma better_trans2: "\<not> better limit b a \<Longrightarrow> better limit c a \<Longrightarrow> better limit c b"
  by (auto simp: better_def)

lemma better_trans3: "\<not> better limit b a \<Longrightarrow> \<not> better limit a c \<Longrightarrow> \<not> better limit b c"
  by (auto simp: better_def)

lemma better_asym: "better limit b a \<Longrightarrow> \<not> better limit a b"
  by (auto simp: better_def)

lemma better_irrefl: "\<not> better limit a a"
  by (auto simp: better_def)

lemma scan_from_best:
  assumes "i + k \<le> length ps"
    and "\<And>j. i \<le> j \<Longrightarrow> j < i + k \<Longrightarrow> item (ps ! j) = Inr (g (ps ! j))"
  shows "\<exists>m'. scan_periods item ps limit k i (Some (g (ps ! m)), Some (startTime (ps ! m)))
              = Inr (Some (g (ps ! m')), Some (startTime (ps ! m')))
          \<and> (m' = m \<or> (i \<le> m' \<and> m' < i + k \<and> better limit (g (ps ! m')) (g (ps ! m))
                \<and> (\<forall>j. i \<le> j \<and> j < m' \<longrightarrow> better limit (g (ps ! m')) (g (ps ! j)))))
          \<and> \<not> better limit (g (ps ! m)) (g (ps ! m'))
          \<and> (\<forall>j. i \<le> j \<and> j < i + k \<longrightarrow> \<not> better limit (g (ps ! j)) (g (ps ! m')))"
  using assms
proof (induction k arbitrary: i m)
  case 0
  show ?case by (rule exI [of _ m]) (auto simp: better_irrefl)
next
  case (Suc k)
  have i_lt: "i < length ps" using Suc.prems(1) by simp
  have item_i: "item (ps ! i) = Inr (g (ps ! i))" using Suc.prems(2) [of i] by simp
  have win: "Suc i + k \<le> length ps" using Suc.prems(1) by simp
  have ok: "\<And>j. Suc i \<le> j \<Longrightarrow> j < Suc i + k \<Longrightarrow> item (ps ! j) = Inr (g (ps ! j))"
    using Suc.prems(2) by simp
  show ?case
  proof (cases "better limit (g (ps ! i)) (g (ps ! m))")
    case True
    from Suc.IH [OF win ok, of i] obtain m' where
      run: "scan_periods item ps limit k (Suc i) (Some (g (ps ! i)), Some (startTime (ps ! i)))
              = Inr (Some (g (ps ! m')), Some (startTime (ps ! m')))"
      and pos: "m' = i \<or> (Suc i \<le> m' \<and> m' < Suc i + k \<and> better limit (g (ps ! m')) (g (ps ! i))
                \<and> (\<forall>j. Suc i \<le> j \<and> j < m' \<longrightarrow> better limit (g (ps ! m')) (g (ps ! j))))"
      and ge: "\<not> better limit (g (ps ! i)) (g (ps ! m'))"
      and all: "\<forall>j. Suc i \<le> j \<and> j < Suc i + k \<longrightarrow> \<not> better limit (g (ps ! j)) (g (ps ! m'))"
      by blast
    have step: "scan_periods item ps limit (Suc k) i (Some (g (ps ! m)), Some (startTime (ps ! m)))
              = Inr (Some (g (ps ! m')), Some (startTime (ps ! m')))"
      using i_lt item_i True run by (simp add: process_curr_item_Some)
    have b1: "better limit (g (ps ! m')) (g (ps ! m))"
      using better_trans1 [OF True ge] .
    have b2: "\<forall>j. i \<le> j \<and> j < m' \<longrightarrow> better limit (g (ps ! m')) (g (ps ! j))"
    proof (intro allI impI)
      fix j assume j: "i \<le> j \<and> j < m'"
      then have "m' \<noteq> i" by simp
      with pos have p: "better limit (g (ps ! m')) (g (ps ! i))"
        "\<forall>j. Suc i \<le> j \<and> j < m' \<longrightarrow> better limit (g (ps ! m')) (g (ps ! j))" by simp_all
      show "better limit (g (ps ! m')) (g (ps ! j))"
      proof (cases "j = i")
        case True then show ?thesis using p(1) by simp
      next
        case False then show ?thesis using p(2) j by simp
      qed
    qed
    have b3: "i \<le> m' \<and> m' < i + Suc k" using pos by auto
    have b4: "\<forall>j. i \<le> j \<and> j < i + Suc k \<longrightarrow> \<not> better limit (g (ps ! j)) (g (ps ! m'))"
    proof (intro allI impI)
      fix j assume j: "i \<le> j \<and> j < i + Suc k"
      show "\<not> better limit (g (ps ! j)) (g (ps ! m'))"
      proof (cases "j = i")
        case True then show ?thesis using ge by simp
      next
        case False then show ?thesis using all j by simp
      qed
    qed
    show ?thesis
      using step b1 b2 b3 b4 better_asym [OF b1] by blast
  next
    case False
    from Suc.IH [OF win ok, of m] obtain m' where
      run: "scan_periods item ps limit k (Suc i) (Some (g (ps ! m)), Some (startTime (ps ! m)))
              = Inr (Some (g (ps ! m')), Some (startTime (ps ! m')))"
      and pos: "m' = m \<or> (Suc i \<le> m' \<and> m' < Suc i + k \<and> better limit (g (ps ! m')) (g (ps ! m))
                \<and> (\<forall>j. Suc i \<le> j \<and> j < m' \<longrightarrow> better limit (g (ps ! m')) (g (ps ! j))))"
      and ge: "\<not> better limit (g (ps ! m)) (g (ps ! m'))"
      and all: "\<forall>j. Suc i \<le> j \<and> j < Suc i + k \<longrightarrow> \<not> better limit (g (ps ! j)) (g (ps ! m'))"
      by blast
    have step: "scan_periods item ps limit (Suc k) i (Some (g (ps ! m)), Some (startTime (ps ! m)))
              = Inr (Some (g (ps ! m')), Some (startTime (ps ! m')))"
      using i_lt item_i False run by (simp add: process_curr_item_Some)
    have b4: "\<forall>j. i \<le> j \<and> j < i + Suc k \<longrightarrow> \<not> better limit (g (ps ! j)) (g (ps ! m'))"
    proof (intro allI impI)
      fix j assume j: "i \<le> j \<and> j < i + Suc k"
      show "\<not> better limit (g (ps ! j)) (g (ps ! m'))"
      proof (cases "j = i")
        case True then show ?thesis using better_trans3 [OF False ge] by simp
      next
        case False then show ?thesis using all j by simp
      qed
    qed
    have b2: "m' = m \<or> (i \<le> m' \<and> m' < i + Suc k \<and> better limit (g (ps ! m')) (g (ps ! m))
                \<and> (\<forall>j. i \<le> j \<and> j < m' \<longrightarrow> better limit (g (ps ! m')) (g (ps ! j))))"
    proof (cases "m' = m")
      case True then show ?thesis by simp
    next
      case ne: False
      with pos have p: "Suc i \<le> m'" "m' < Suc i + k" "better limit (g (ps ! m')) (g (ps ! m))"
        "\<forall>j. Suc i \<le> j \<and> j < m' \<longrightarrow> better limit (g (ps ! m')) (g (ps ! j))" by simp_all
      have "\<forall>j. i \<le> j \<and> j < m' \<longrightarrow> better limit (g (ps ! m')) (g (ps ! j))"
      proof (intro allI impI)
        fix j assume j: "i \<le> j \<and> j < m'"
        show "better limit (g (ps ! m')) (g (ps ! j))"
        proof (cases "j = i")
          case True then show ?thesis using better_trans2 [OF False p(3)] by simp
        next
          case False then show ?thesis using p(4) j by simp
        qed
      qed
      with p show ?thesis by simp
    qed
    show ?thesis using step b2 b4 ge by blast
  qed
qed

lemma scan_first_best:
  assumes "0 < n" and "n \<le> length ps"
    and "\<And>j. j < n \<Longrightarrow> item (ps ! j) = Inr (g (ps ! j))"
  shows "\<exists>m<n. scan_periods item ps limit n 0 (None, None)
              = Inr (Some (g (ps ! m)), Some (startTime (ps ! m)))
          \<and> (\<forall>j<n. \<not> better limit (g (ps ! j)) (g (ps ! m)))
          \<and> (\<forall>j<m. better limit (g (ps ! m)) (g (ps ! j)))"
proof -
  from assms(1) obtain k where n: "n = Suc k" by (cases n) simp_all
  have win: "Suc 0 + k \<le> length ps" using assms(2) n by simp
  have ok: "\<And>j. Suc 0 \<le> j \<Longrightarrow> j < Suc 0 + k \<Longrightarrow> item (ps ! j) = Inr (g (ps ! j))"
    using assms(3) n by simp
  from scan_from_best [where i = "Suc 0" and k = k and ps = ps and item = item and g = g
      and limit = limit and m = 0, OF win ok] obtain m' where
      run: "scan_periods item ps limit k (Suc 0) (Some (g (ps ! 0)), Some (startTime (ps ! 0)))
              = Inr (Some (g (ps ! m')), Some (startTime (ps ! m')))"
      and pos: "m' = 0 \<or> (Suc 0 \<le> m' \<and> m' < Suc 0 + k \<and> better limit (g (ps ! m')) (g (ps ! 0))
                \<and> (\<forall>j. Suc 0 \<le> j \<and> j < m' \<longrightarrow> better limit (g (ps ! m')) (g (ps ! j))))"
      and ge: "\<not> better limit (g (ps ! 0)) (g (ps ! m'))"
      and all: "\<forall>j. Suc 0 \<le> j \<and> j < Suc 0 + k \<longrightarrow> \<not> better limit (g (ps ! j)) (g (ps ! m'))"
    by blast
  have first: "item (ps ! 0) = Inr (g (ps ! 0))" using assms(3) [of 0] assms(1) by simp
  have step: "scan_periods item ps limit n 0 (None, None)
              = Inr (Some (g (ps ! m')), Some (startTime (ps ! m')))"
    using n assms(2) first run by (auto simp add: process_curr_item_None)
  have lt: "m' < n" using pos n by auto
  have a: "\<forall>j<n. \<not> better limit (g (ps ! j)) (g (ps ! m'))"
  proof (intro allI impI)
    fix j assume "j < n"
    show "\<not> better limit (g (ps ! j)) (g (ps ! m'))"
    proof (cases "j = 0")
      case True then show ?thesis using ge by simp
    next
      case False then show ?thesis using all \<open>j < n\<close> n by simp
    qed
  qed
  have b: "\<forall>j<m'. better limit (g (ps ! m')) (g (ps ! j))"
  proof (intro allI impI)
    fix j assume j: "j < m'"
    then have "m' \<noteq> 0" by simp
    with pos have p: "better limit (g (ps ! m')) (g (ps ! 0))"
      "\<forall>j. Suc 0 \<le> j \<and> j < m' \<longrightarrow> better limit (g (ps ! m')) (g (ps ! j))" by simp_all
    show "better limit (g (ps ! m')) (g (ps ! j))"
    proof (cases "j = 0")
      case True then show ?thesis using p(1) by simp
    next
      case False then show ?thesis using p(2) j by simp
    qed
  qed
  show ?thesis using lt step a b by blast
qed


lemma extremum_scan_first_best:
  assumes "1 \<le> len" and "len \<le> int (length periods)"
    and "\<forall>j<nat len. item (periods ! j) = Inr (g (periods ! j))"
  shows "\<exists>m<nat len. extremum_scan item periods len limit
              = Inr (Some (g (periods ! m)), Some (startTime (periods ! m)))
          \<and> (\<forall>j<nat len. \<not> better limit (g (periods ! j)) (g (periods ! m)))
          \<and> (\<forall>j<m. better limit (g (periods ! m)) (g (periods ! j)))"
proof -
  have a: "0 < nat len" using assms(1) by simp
  have b: "nat len \<le> length periods" using assms(2) by simp
  have c: "\<And>j. j < nat len \<Longrightarrow> item (periods ! j) = Inr (g (periods ! j))"
    using assms(3) by simp
  show ?thesis
    unfolding extremum_scan_def
    by (rule scan_first_best [where n = "nat len" and ps = periods and item = item and g = g, OF a b c])
qed


lemma air_item_F: "air_item ''F'' p = Inr (temperature p)"
  by (simp add: air_item_def)





text \<open>
  Claim C10. With a limit that is neither \<open>MAX\<close> nor \<open>MIN\<close>, the scan of a non-empty
  window ends with the value and the start time of the first period: the first iteration
  installs it, and no later one replaces it.
\<close>

theorem extremum_scan_other_limit:
  assumes "limit \<noteq> ''MAX''" and "limit \<noteq> ''MIN''"
    and "1 \<le> len" and "len \<le> int (length periods)"
    and "\<forall>j<nat len. item (periods ! j) = Inr (g (periods ! j))"
  shows "extremum_scan item periods len limit
           = Inr (Some (g (periods ! 0)), Some (startTime (periods ! 0)))"
proof -
  from extremum_scan_first_best [OF assms(3-5), of limit] obtain m where
    m: "extremum_scan item periods len limit
          = Inr (Some (g (periods ! m)), Some (startTime (periods ! m)))"
       "\<forall>j<m. better limit (g (periods ! m)) (g (periods ! j))" by blast
  have "m = 0"
  proof (rule ccontr)
    assume "m \<noteq> 0"
    with m(2) have "better limit (g (periods ! m)) (g (periods ! 0))" by simp
    with assms(1,2) show False by (simp add: better_def)
  qed
  with m(1) show ?thesis by simp
qed

text \<open>The humidity of the two example periods under the limit \<open>AVG\<close>: the first period's 50.\<close>

theorem extremum_scan_other_limit_witness:
  "''AVG'' \<noteq> ''MAX'' \<and> ''AVG'' \<noteq> ''MIN'' \<and> (1::int) \<le> 2
   \<and> (2::int) \<le> int (length
        [\<lparr>startTime = ''2023-01-01T00:00:00-08:00'', temperature = 70, relativeHumidity = 50,
          windSpeed = ''5 mph'', probabilityOfPrecipitation = 10\<rparr>,
         \<lparr>startTime = ''2023-01-01T01:00:00-08:00'', temperature = 75, relativeHumidity = 40,
          windSpeed = ''10 mph'', probabilityOfPrecipitation = 20\<rparr>])
   \<and> extremum_scan humidity_item
        [\<lparr>startTime = ''2023-01-01T00:00:00-08:00'', temperature = 70, relativeHumidity = 50,
          windSpeed = ''5 mph'', probabilityOfPrecipitation = 10\<rparr>,
         \<lparr>startTime = ''2023-01-01T01:00:00-08:00'', temperature = 75, relativeHumidity = 40,
          windSpeed = ''10 mph'', probabilityOfPrecipitation = 20\<rparr>] 2 ''AVG''
       = Inr (Some 50, Some ''2023-01-01T00:00:00-08:00'')"
proof -
  let ?ps = "[\<lparr>startTime = ''2023-01-01T00:00:00-08:00'', temperature = 70, relativeHumidity = 50,
          windSpeed = ''5 mph'', probabilityOfPrecipitation = 10\<rparr>,
         \<lparr>startTime = ''2023-01-01T01:00:00-08:00'', temperature = 75, relativeHumidity = 40,
          windSpeed = ''10 mph'', probabilityOfPrecipitation = 20\<rparr>]"
  have a1: "''AVG'' \<noteq> ''MAX''" by simp
  have a2: "''AVG'' \<noteq> ''MIN''" by simp
  have h1: "(1::int) \<le> 2" by simp
  have h2: "(2::int) \<le> int (length ?ps)" by simp
  have h3: "\<forall>j<nat 2. humidity_item (?ps ! j) = Inr (relativeHumidity (?ps ! j))"
    by (simp add: humidity_item_def)
  from extremum_scan_other_limit [where item = humidity_item and g = relativeHumidity,
      OF a1 a2 h1 h2 h3]
  have "extremum_scan humidity_item ?ps 2 ''AVG''
       = Inr (Some 50, Some ''2023-01-01T00:00:00-08:00'')" by simp
  with a1 a2 h1 h2 show ?thesis by blast
qed

section \<open>The feels-like temperature\<close>

lemmas parse_simps = simplify_wind_speed_def subscript_def and_then_def py_float_str_def
      strip_sign_def is_digit_def nat_of_digits_def digit_val_def

text \<open>
  Claim C3. For a period whose wind speed string parses to \<open>w\<close>, the value of the feels-like
  loop body is chosen on the raw Fahrenheit temperature: the heat index when it is at least
  68; otherwise the wind chill when it is at most 50 and \<open>w > 3\<close>; otherwise the raw
  temperature. The conversion to Celsius (scale \<open>C\<close>) is applied to the chosen value.
\<close>

theorem feels_like_selection:
  assumes "simplify_wind_speed (windSpeed p) = Inr w"
  shows "feels_like_item scale p =
           Inr ((if scale = ''C'' then celsius else id)
                  (if 68 \<le> temperature p then calc_heat_index (temperature p) (relativeHumidity p)
                   else if temperature p \<le> 50 \<and> 3 < w then calc_wind_chill (temperature p) w
                   else temperature p))"
  using assms by (simp add: feels_like_item_def and_then_def Let_def)

text \<open>
  The three cases of the specification: 68 degrees takes the heat index, 50 degrees with
  4 mph the wind chill, 60 degrees is passed through (and converted for scale \<open>C\<close>).
\<close>

theorem feels_like_selection_witness:
  "simplify_wind_speed (windSpeed \<lparr>startTime = ''2023-01-01T00:00:00-08:00'', temperature = 68,
        relativeHumidity = 50, windSpeed = ''0 mph'', probabilityOfPrecipitation = 0\<rparr>) = Inr 0
   \<and> feels_like_item ''F'' \<lparr>startTime = ''2023-01-01T00:00:00-08:00'', temperature = 68,
        relativeHumidity = 50, windSpeed = ''0 mph'', probabilityOfPrecipitation = 0\<rparr>
      = Inr (calc_heat_index 68 50)
   \<and> simplify_wind_speed (windSpeed \<lparr>startTime = ''2023-01-01T00:00:00-08:00'', temperature = 50,
        relativeHumidity = 50, windSpeed = ''4 mph'', probabilityOfPrecipitation = 0\<rparr>) = Inr 4
   \<and> feels_like_item ''F'' \<lparr>startTime = ''2023-01-01T00:00:00-08:00'', temperature = 50,
        relativeHumidity = 50, windSpeed = ''4 mph'', probabilityOfPrecipitation = 0\<rparr>
      = Inr (calc_wind_chill 50 4)
   \<and> simplify_wind_speed (windSpeed \<lparr>startTime = ''2023-01-01T00:00:00-08:00'', temperature = 60,
        relativeHumidity = 50, windSpeed = ''10 mph'', probabilityOfPrecipitation = 0\<rparr>) = Inr 10
   \<and> feels_like_item ''F'' \<lparr>startTime = ''2023-01-01T00:00:00-08:00'', temperature = 60,
        relativeHumidity = 50, windSpeed = ''10 mph'', probabilityOfPrecipitation = 0\<rparr>
      = Inr 60
   \<and> feels_like_item ''C'' \<lparr>startTime = ''2023-01-01T00:00:00-08:00'', temperature = 60,
        relativeHumidity = 50, windSpeed = ''10 mph'', probabilityOfPrecipitation = 0\<rparr>
      = Inr (celsius 60)"
proof -
  let ?a = "\<lparr>startTime = ''2023-01-01T00:00:00-08:00'', temperature = 68,
        relativeHumidity = 50, windSpeed = ''0 mph'', probabilityOfPrecipitation = 0\<rparr>"
  let ?b = "\<lparr>startTime = ''2023-01-01T00:00:00-08:00'', temperature = 50,
        relativeHumidity = 50, windSpeed = ''4 mph'', probabilityOfPrecipitation = 0\<rparr>"
  let ?c = "\<lparr>startTime = ''2023-01-01T00:00:00-08:00'', temperature = 60,
        relativeHumidity = 50, windSpeed = ''10 mph'', probabilityOfPrecipitation = 0\<rparr>"
  have wa: "simplify_wind_speed (windSpeed ?a) = Inr 0" by (simp add: parse_simps)
  have wb: "simplify_wind_speed (windSpeed ?b) = Inr 4" by (simp add: parse_simps)
  have wc: "simplify_wind_speed (windSpeed ?c) = Inr 10" by (simp add: parse_simps)
  have ra: "feels_like_item ''F'' ?a = Inr (calc_heat_index 68 50)"
    using feels_like_selection [OF wa, of "''F''"] by simp
  have rb: "feels_like_item ''F'' ?b = Inr (calc_wind_chill 50 4)"
    using feels_like_selection [OF wb, of "''F''"] by simp
  have rc: "feels_like_item ''F'' ?c = Inr 60"
    using feels_like_selection [OF wc, of "''F''"] by simp
  have rd: "feels_like_item ''C'' ?c = Inr (celsius 60)"
    using feels_like_selection [OF wc, of "''C''"] by simp
  from wa wb wc ra rb rc rd show ?thesis by blast
qed

section \<open>The forecast location and the geocoding point\<close>

text \<open>
  Claim C6. For a first ring with at least one vertex, \<open>determine_forecast_location\<close>
  returns the pair (mean latitude, mean longitude) of the ring's vertices with the
  duplicates removed (vertices are equal when both coordinates are): each mean is the sum
  over the distinct vertices divided by their number, the latitude being the second and
  the longitude the first component of a coordinate.
\<close>

theorem centroid_of_unique_vertices:
  assumes "polygon_coords \<noteq> []"
  shows "determine_forecast_location (polygon_coords # rings) =
           Inr (sum_list (map snd (remdups polygon_coords)) / real (length (remdups polygon_coords)),
                sum_list (map fst (remdups polygon_coords)) / real (length (remdups polygon_coords)))"
proof -
  have s: "sum f (set polygon_coords) = sum_list (map f (remdups polygon_coords))" for f :: "real \<times> real \<Rightarrow> real"
    using sum_list_distinct_conv_sum_set [of "remdups polygon_coords" f] by simp
  have c: "card (set polygon_coords) = length (remdups polygon_coords)"
    by (simp add: length_remdups_card_conv)
  have "remdups polygon_coords \<noteq> []" using assms by simp
  then have "length (remdups polygon_coords) \<noteq> 0" by simp
  then show ?thesis
    by (simp add: determine_forecast_location_def subscript_def and_then_def s c del: length_0_conv)
qed

text \<open>The square with its closing vertex repeated has the centroid \<open>(1, 1)\<close>.\<close>

theorem centroid_of_square:
  "[(0, 0), (0, 2), (2, 2), (2, 0), (0, 0)] \<noteq> ([] :: (real \<times> real) list)
   \<and> determine_forecast_location [[(0, 0), (0, 2), (2, 2), (2, 0), (0, 0)]] = Inr (1, 1)"
  using centroid_of_unique_vertices [of "[(0, 0), (0, 2), (2, 2), (2, 0), (0, 0)]" "[]"]
  by simp

text \<open>
  Claim C8 as stated fails: on the empty result list \<^verbatim>\<open>geocoding_data[0]\<close> raises Python's
  \<open>IndexError\<close>, not a \<open>NotFoundError\<close>.
\<close>

theorem empty_geocode_result_counterexample:
  "get_latitude_and_longitude [] = Inl IndexError
   \<and> get_latitude_and_longitude [] \<noteq> Inl NotFoundError"
  by (simp add: get_latitude_and_longitude_def subscript_def and_then_def)

text \<open>
  Claim C8, amended. On the empty result list \<open>get_latitude_and_longitude\<close> fails with
  \<open>IndexError\<close> and returns no point; on a list whose first element has a latitude and a
  longitude that \<^verbatim>\<open>float\<close> accepts, it returns these two numbers.
\<close>

theorem first_geocode_point:
  assumes "py_float (lat first) = Inr latitude" and "py_float (lon first) = Inr longitude"
  shows "get_latitude_and_longitude [] = Inl IndexError
         \<and> get_latitude_and_longitude (first # others) = Inr (latitude, longitude)"
  using assms by (simp add: get_latitude_and_longitude_def subscript_def and_then_def)

text \<open>A Nominatim answer with its coordinates as strings, followed by a second match.\<close>

theorem first_geocode_point_witness:
  "py_float (lat \<lparr>lat = JStr ''33.6432'', lon = JStr ''-117.8419''\<rparr>) = Inr 33.6432
   \<and> py_float (lon \<lparr>lat = JStr ''33.6432'', lon = JStr ''-117.8419''\<rparr>) = Inr (- 117.8419)
   \<and> get_latitude_and_longitude [] = Inl IndexError
   \<and> get_latitude_and_longitude
        [\<lparr>lat = JStr ''33.6432'', lon = JStr ''-117.8419''\<rparr>, \<lparr>lat = JNum 1, lon = JNum 2\<rparr>]
       = Inr (33.6432, - 117.8419)"
proof -
  have a: "py_float (lat \<lparr>lat = JStr ''33.6432'', lon = JStr ''-117.8419''\<rparr>) = Inr 33.6432"
    by (simp add: py_float_def py_float_str_def strip_sign_def is_digit_def nat_of_digits_def digit_val_def)
  have b: "py_float (lon \<lparr>lat = JStr ''33.6432'', lon = JStr ''-117.8419''\<rparr>) = Inr (- 117.8419)"
    by (simp add: py_float_def py_float_str_def strip_sign_def is_digit_def nat_of_digits_def digit_val_def)
  from first_geocode_point [OF a b, of "[\<lparr>lat = JNum 1, lon = JNum 2\<rparr>]"] a b
  show ?thesis by simp
qed

section \<open>The printed form of a query result\<close>

subsection \<open>Digits\<close>

lemma is_digit_digit_char: "is_digit (digit_char n)"
proof -
  have "48 + n mod 10 < 256" by simp
  then have "(of_char (char_of (48 + n mod 10)) :: nat) = 48 + n mod 10"
    by (simp add: of_char_of)
  then show ?thesis by (simp add: is_digit_def digit_char_def)
qed

lemma digit_val_digit_char: "digit_val (digit_char n) = n mod 10"
proof -
  have "48 + n mod 10 < 256" by simp
  then have "(of_char (char_of (48 + n mod 10)) :: nat) = 48 + n mod 10"
    by (simp add: of_char_of)
  then show ?thesis by (simp add: digit_val_def digit_char_def)
qed

lemma nat_of_digits_snoc: "nat_of_digits (ds @ [c]) = 10 * nat_of_digits ds + digit_val c"
  by (simp add: nat_of_digits_def)

lemma string_of_nat_digits: "all_digits (string_of_nat n)"
proof (induction n rule: string_of_nat.induct)
  case (1 n)
  show ?case
  proof (cases "n < 10")
    case True
    then show ?thesis by (simp add: string_of_nat.simps [of n] all_digits_def is_digit_digit_char)
  next
    case False
    with 1 have "all_digits (string_of_nat (n div 10))" by simp
    with False show ?thesis
      by (subst string_of_nat.simps) (simp add: all_digits_def is_digit_digit_char)
  qed
qed

lemma nat_of_digits_string_of_nat: "nat_of_digits (string_of_nat n) = n"
proof (induction n rule: string_of_nat.induct)
  case (1 n)
  show ?case
  proof (cases "n < 10")
    case True
    then show ?thesis
      by (simp add: string_of_nat.simps [of n] nat_of_digits_def digit_val_digit_char)
  next
    case False
    with 1 have "nat_of_digits (string_of_nat (n div 10)) = n div 10" by simp
    with False show ?thesis
      by (subst string_of_nat.simps) (simp add: nat_of_digits_snoc digit_val_digit_char)
  qed
qed

lemma fits_show2: "fits ''dd'' (show2 n)"
  by (simp add: fits_def show2_def is_digit_digit_char)

lemma fits_show4: "fits ''dddd'' (show4 n)"
  by (simp add: fits_def show4_def is_digit_digit_char)

lemma fits_append: "fits p s \<Longrightarrow> fits q t \<Longrightarrow> fits (p @ q) (s @ t)"
  by (simp add: fits_def list_all2_appendI)

lemma fits_same: "CHR ''d'' \<notin> set p \<Longrightarrow> fits p p"
  by (induction p) (auto simp: fits_def)

lemma nat_of_digits_show2: "n < 100 \<Longrightarrow> nat_of_digits (show2 n) = n"
  by (simp add: show2_def nat_of_digits_def digit_val_digit_char)

lemma nat_of_digits_show4: "n < 10000 \<Longrightarrow> nat_of_digits (show4 n) = n"
proof -
  assume n: "n < 10000"
  have e: "nat_of_digits (show4 n)
      = 1000 * (n div 1000 mod 10) + (100 * (n div 100 mod 10) + (10 * (n div 10 mod 10) + n mod 10))"
    by (simp add: show4_def nat_of_digits_def digit_val_digit_char)
  have a: "n mod (10 * 10) = 10 * (n div 10 mod 10) + n mod 10" by (rule mod_mult2_eq)
  have b: "n mod (100 * 10) = 100 * (n div 100 mod 10) + n mod 100" by (rule mod_mult2_eq)
  have c: "n mod (1000 * 10) = 1000 * (n div 1000 mod 10) + n mod 1000" by (rule mod_mult2_eq)
  from a have a': "10 * (n div 10 mod 10) + n mod 10 = n mod 100" by simp
  from b have b': "100 * (n div 100 mod 10) + n mod 100 = n mod 1000" by simp
  from c have c': "1000 * (n div 1000 mod 10) + n mod 1000 = n mod 10000" by simp
  from n have d: "n mod 10000 = n" by simp
  from e a' b' c' d show ?thesis by simp
qed

subsection \<open>The calendar: the conversion to UTC keeps the instant\<close>

lemma days_before_month_Suc:
  "1 \<le> m \<Longrightarrow> days_before_month y (Suc m) = days_before_month y m + int (days_in_month y m)"
  by (simp add: days_before_month_def)

lemma days_before_month_1: "days_before_month y 1 = 0" "days_before_month y (Suc 0) = 0"
  by (simp_all add: days_before_month_def)

lemma days_before_month_12:
  "days_before_month y 12 = (if is_leap y then 335 else 334)"
proof -
  have "[1..<12] = [1,2,3,4,5,6,7,8,9,10,11::nat]" by (simp add: upt_rec)
  then show ?thesis by (simp add: days_before_month_def days_in_month_def)
qed

lemma div_step:
  fixes z k :: int
  assumes "0 < k"
  shows "(z + 1) div k = z div k + (if (z + 1) mod k = 0 then 1 else 0)"
proof (cases "z mod k + 1 = k")
  case True
  have "z + 1 = k * (z div k) + (z mod k + 1)" by simp
  with True have e: "z + 1 = k * (z div k + 1)" by (simp add: algebra_simps)
  have "(z + 1) div k = z div k + 1" using assms by (subst e) simp
  moreover have "(z + 1) mod k = 0" by (subst e) simp
  ultimately show ?thesis by simp
next
  case False
  have r: "0 \<le> z mod k + 1" "z mod k + 1 < k"
    using assms False pos_mod_bound [of k z] pos_mod_sign [of k z] by linarith+
  have e: "z + 1 = k * (z div k) + (z mod k + 1)" by simp
  have "(z + 1) div k = z div k" using int_div_pos_eq [OF e r] .
  moreover have "(z + 1) mod k = z mod k + 1" using int_mod_pos_eq [OF e r] .
  moreover have "z mod k + 1 \<noteq> 0" using pos_mod_sign [of k z] assms by linarith
  ultimately show ?thesis by simp
qed

lemma nat_mod_int: "(y mod k = 0) = (int y mod int k = 0)"
  by (metis of_nat_mod of_nat_eq_0_iff)

lemma days_before_year_Suc:
  assumes "1 \<le> y"
  shows "days_before_year (Suc y) = days_before_year y + (if is_leap y then 366 else 365)"
proof -
  define z where "z = int y - 1"
  have zy: "int (Suc y) - 1 = z + 1" "int y = z + 1" by (simp_all add: z_def)
  have m4: "(y mod 4 = 0) = ((z + 1) mod 4 = 0)"
    using nat_mod_int [of y 4] zy(2) by simp
  have m100: "(y mod 100 = 0) = ((z + 1) mod 100 = 0)"
    using nat_mod_int [of y 100] zy(2) by simp
  have m400: "(y mod 400 = 0) = ((z + 1) mod 400 = 0)"
    using nat_mod_int [of y 400] zy(2) by simp
  have "(100::int) dvd 400" by simp
  then have d1: "(z + 1) mod 400 = 0 \<Longrightarrow> (z + 1) mod 100 = 0"
    unfolding mod_eq_0_iff_dvd by (rule dvd_trans)
  have "(4::int) dvd 100" by simp
  then have d2: "(z + 1) mod 100 = 0 \<Longrightarrow> (z + 1) mod 4 = 0"
    unfolding mod_eq_0_iff_dvd by (rule dvd_trans)
  have s4: "(z + 1) div 4 = z div 4 + (if (z + 1) mod 4 = 0 then 1 else 0)"
    by (rule div_step) simp
  have s100: "(z + 1) div 100 = z div 100 + (if (z + 1) mod 100 = 0 then 1 else 0)"
    by (rule div_step) simp
  have s400: "(z + 1) div 400 = z div 400 + (if (z + 1) mod 400 = 0 then 1 else 0)"
    by (rule div_step) simp
  have l: "is_leap y = ((z + 1) mod 400 = 0 \<or> ((z + 1) mod 100 \<noteq> 0 \<and> (z + 1) mod 4 = 0))"
    by (simp add: is_leap_def m4 m100 m400)
  have e1: "days_before_year (Suc y) = 365 * (z + 1) + (z + 1) div 4 - (z + 1) div 100 + (z + 1) div 400"
    unfolding days_before_year_def Let_def zy(1) by simp
  have e2: "days_before_year y = 365 * z + z div 4 - z div 100 + z div 400"
    by (simp add: days_before_year_def Let_def z_def)
  show ?thesis
  proof (cases "(z + 1) mod 400 = 0")
    case True
    with d1 have c100: "(z + 1) mod 100 = 0" by simp
    with d2 have c4: "(z + 1) mod 4 = 0" by simp
    show ?thesis unfolding e1 e2 s4 s100 s400 l by (simp only: True c100 c4 if_True) simp
  next
    case n400: False
    show ?thesis
    proof (cases "(z + 1) mod 100 = 0")
      case True
      with d2 have c4: "(z + 1) mod 4 = 0" by simp
      show ?thesis unfolding e1 e2 s4 s100 s400 l
        by (simp only: True c4 n400 if_True if_False) simp
    next
      case n100: False
      show ?thesis
      proof (cases "(z + 1) mod 4 = 0")
        case True
        show ?thesis unfolding e1 e2 s4 s100 s400 l
          by (simp only: True n100 n400 if_True if_False) simp
      next
        case False
        show ?thesis unfolding e1 e2 s4 s100 s400 l
          by (simp only: False n100 n400 if_True if_False) simp
      qed
    qed
  qed
qed


lemma prev_day_ordinal:
  assumes "1 \<le> y" and "1 \<le> m" and "m \<le> 12" and "1 \<le> d" and "d \<le> days_in_month y m"
    and "prev_day (y, m, d) = Some (y', m', d')"
  shows "toordinal y' m' d' = toordinal y m d - 1
         \<and> 1 \<le> y' \<and> 1 \<le> m' \<and> m' \<le> 12 \<and> 1 \<le> d' \<and> d' \<le> days_in_month y' m'"
proof (cases "1 < d")
  case True
  with assms show ?thesis by (auto simp: prev_day_def toordinal_def)
next
  case d1: False
  with assms(4) have d: "d = 1" by simp
  show ?thesis
  proof (cases "1 < m")
    case True
    with assms(6) d have r: "y' = y" "m' = m - 1" "d' = days_in_month y (m - 1)"
      by (auto simp: prev_day_def)
    from True have "days_before_month y (Suc (m - 1))
        = days_before_month y (m - 1) + int (days_in_month y (m - 1))"
      by (intro days_before_month_Suc) simp
    with True have "days_before_month y m = days_before_month y m' + int d'"
      by (simp add: r)
    moreover have "1 \<le> days_in_month y (m - 1)" by (simp add: days_in_month_def)
    ultimately show ?thesis using True assms(1,3) d r by (auto simp: toordinal_def)
  next
    case False
    with assms(2) have m: "m = 1" by simp
    with assms(6) d have y1: "1 < y" by (auto simp: prev_day_def split: if_splits)
    with assms(6) d m have r: "y' = y - 1" "m' = 12" "d' = 31" by (simp_all add: prev_day_def)
    from y1 have "days_before_year (Suc (y - 1))
        = days_before_year (y - 1) + (if is_leap (y - 1) then 366 else 365)"
      by (intro days_before_year_Suc) simp
    with y1 have "days_before_year y = days_before_year y' + (if is_leap y' then 366 else 365)"
      by (simp add: r)
    then have "toordinal y' m' d' = toordinal y m d - 1"
      by (simp add: toordinal_def r d m days_before_month_12 days_before_month_1)
    then show ?thesis using y1 r by (simp add: days_in_month_def)
  qed
qed

lemma next_day_ordinal:
  assumes "1 \<le> y" and "1 \<le> m" and "m \<le> 12" and "1 \<le> d" and "d \<le> days_in_month y m"
    and "next_day (y, m, d) = Some (y', m', d')"
  shows "toordinal y' m' d' = toordinal y m d + 1
         \<and> 1 \<le> y' \<and> 1 \<le> m' \<and> m' \<le> 12 \<and> 1 \<le> d' \<and> d' \<le> days_in_month y' m'"
proof (cases "d < days_in_month y m")
  case True
  with assms show ?thesis by (auto simp: next_day_def toordinal_def)
next
  case False
  with assms(5) have d: "d = days_in_month y m" by simp
  show ?thesis
  proof (cases "m < 12")
    case True
    with assms(6) d have r: "y' = y" "m' = m + 1" "d' = 1" by (simp_all add: next_day_def)
    have "days_before_month y (Suc m) = days_before_month y m + int (days_in_month y m)"
      using assms(2) by (rule days_before_month_Suc)
    moreover have "1 \<le> days_in_month y (m + 1)" by (simp add: days_in_month_def)
    ultimately show ?thesis using True assms(1) d r by (simp add: toordinal_def)
  next
    case False
    with assms(3) have m: "m = 12" by simp
    with assms(6) d have y1: "y < 9999" by (auto simp: next_day_def split: if_splits)
    with assms(6) d m have r: "y' = y + 1" "m' = 1" "d' = 1" by (simp_all add: next_day_def)
    have d31: "d = 31" using d m by (simp add: days_in_month_def)
    have "days_before_year (Suc y) = days_before_year y + (if is_leap y then 366 else 365)"
      using assms(1) by (rule days_before_year_Suc)
    then have "toordinal y' m' d' = toordinal y m d + 1"
      by (simp add: toordinal_def r d31 m days_before_month_12 days_before_month_1)
    then show ?thesis using r by (simp add: days_in_month_def)
  qed
qed


lemma fromisoformat_valid:
  assumes "fromisoformat s = Inr d"
  shows "1 \<le> dt_year d \<and> 1 \<le> dt_month d \<and> dt_month d \<le> 12 \<and> 1 \<le> dt_day d
         \<and> dt_day d \<le> days_in_month (dt_year d) (dt_month d)
         \<and> dt_hour d \<le> 23 \<and> dt_minute d \<le> 59 \<and> dt_second d \<le> 59
         \<and> - 1440 < dt_offset d \<and> dt_offset d < 1440"
  using assms unfolding fromisoformat_def Let_def
  by (auto split: if_splits)

lemma hm_recompose: "int (n div 60) * 60 + int (n mod 60) = int n"
  by (metis of_nat_add of_nat_mult div_mult_mod_eq of_nat_numeral)

lemma astimezone_utc_instant:
  assumes y: "1 \<le> dt_year d" and m: "1 \<le> dt_month d" "dt_month d \<le> 12"
    and dd: "1 \<le> dt_day d" "dt_day d \<le> days_in_month (dt_year d) (dt_month d)"
    and hm: "dt_hour d \<le> 23" "dt_minute d \<le> 59"
    and off: "- 1440 < dt_offset d" "dt_offset d < 1440"
    and run: "astimezone_utc d = Inr u"
  shows "instant u = instant d \<and> dt_offset u = 0 \<and> dt_second u = dt_second d
         \<and> 1 \<le> dt_year u \<and> 1 \<le> dt_month u \<and> dt_month u \<le> 12 \<and> 1 \<le> dt_day u
         \<and> dt_day u \<le> days_in_month (dt_year u) (dt_month u)
         \<and> dt_hour u \<le> 23 \<and> dt_minute u \<le> 59"
proof -
  define t where "t = int (dt_hour d * 60 + dt_minute d) - dt_offset d"
  have tb: "- 1440 < t" "t < 2880" using hm off by (simp_all add: t_def)
  have inst: "instant d = (toordinal (dt_year d) (dt_month d) (dt_day d) * 1440 + t) * 60
      + int (dt_second d)"
    by (simp add: instant_def t_def algebra_simps)
  have shape: "\<And>y' mo' d' n. n < 1440 \<Longrightarrow>
      instant \<lparr>dt_year = y', dt_month = mo', dt_day = d', dt_hour = n div 60,
        dt_minute = n mod 60, dt_second = dt_second d, dt_offset = 0\<rparr>
      = (toordinal y' mo' d' * 1440 + int n) * 60 + int (dt_second d)"
  proof -
    fix y' mo' d' :: nat and n :: nat
    have "int (n div 60) * 60 + int (n mod 60) = int n" by (rule hm_recompose)
    then show "instant \<lparr>dt_year = y', dt_month = mo', dt_day = d', dt_hour = n div 60,
        dt_minute = n mod 60, dt_second = dt_second d, dt_offset = 0\<rparr>
      = (toordinal y' mo' d' * 1440 + int n) * 60 + int (dt_second d)"
      by (simp add: instant_def algebra_simps)
  qed
  have hb: "\<And>n::nat. n < 1440 \<Longrightarrow> n div 60 \<le> 23 \<and> n mod 60 \<le> 59"
  proof -
    fix n :: nat assume "n < 1440"
    then have "n div 60 < 24" by (simp add: div_less_iff_less_mult)
    moreover have "n mod 60 < 60" by simp
    ultimately show "n div 60 \<le> 23 \<and> n mod 60 \<le> 59" by linarith
  qed
  show ?thesis
  proof (cases "t < 0")
    case True
    with run obtain y' mo' d' where
      p: "prev_day (dt_year d, dt_month d, dt_day d) = Some (y', mo', d')"
      and u: "u = \<lparr>dt_year = y', dt_month = mo', dt_day = d', dt_hour = nat (t + 1440) div 60,
        dt_minute = nat (t + 1440) mod 60, dt_second = dt_second d, dt_offset = 0\<rparr>"
      by (auto simp: astimezone_utc_def Let_def t_def split: option.splits prod.splits)
    have n: "nat (t + 1440) < 1440" "int (nat (t + 1440)) = t + 1440" using True tb by simp_all
    from prev_day_ordinal [OF y m dd p] have
      o: "toordinal y' mo' d' = toordinal (dt_year d) (dt_month d) (dt_day d) - 1"
      and v: "1 \<le> y' \<and> 1 \<le> mo' \<and> mo' \<le> 12 \<and> 1 \<le> d' \<and> d' \<le> days_in_month y' mo'"
      by simp_all
    have "instant u = instant d"
      unfolding u shape [OF n(1)] inst n(2) o by (simp add: algebra_simps)
    then show ?thesis using v hb [OF n(1)] by (simp add: u)
  next
    case nonneg: False
    show ?thesis
    proof (cases "1440 \<le> t")
      case True
      with nonneg run obtain y' mo' d' where
        p: "next_day (dt_year d, dt_month d, dt_day d) = Some (y', mo', d')"
        and u: "u = \<lparr>dt_year = y', dt_month = mo', dt_day = d', dt_hour = nat (t - 1440) div 60,
          dt_minute = nat (t - 1440) mod 60, dt_second = dt_second d, dt_offset = 0\<rparr>"
        by (auto simp: astimezone_utc_def Let_def t_def split: option.splits prod.splits)
      have n: "nat (t - 1440) < 1440" "int (nat (t - 1440)) = t - 1440" using True tb by simp_all
      from next_day_ordinal [OF y m dd p] have
        o: "toordinal y' mo' d' = toordinal (dt_year d) (dt_month d) (dt_day d) + 1"
        and v: "1 \<le> y' \<and> 1 \<le> mo' \<and> mo' \<le> 12 \<and> 1 \<le> d' \<and> d' \<le> days_in_month y' mo'"
        by simp_all
      have "instant u = instant d"
        unfolding u shape [OF n(1)] inst n(2) o by (simp add: algebra_simps)
      then show ?thesis using v hb [OF n(1)] by (simp add: u)
    next
      case False
      with nonneg run have
        u: "u = \<lparr>dt_year = dt_year d, dt_month = dt_month d, dt_day = dt_day d,
          dt_hour = nat t div 60, dt_minute = nat t mod 60, dt_second = dt_second d,
          dt_offset = 0\<rparr>"
        by (auto simp: astimezone_utc_def Let_def t_def)
      have n: "nat t < 1440" "int (nat t) = t" using False nonneg by simp_all
      have "instant u = instant d"
        unfolding u shape [OF n(1)] inst n(2) by simp
      then show ?thesis using y m dd hb [OF n(1)] by (simp add: u)
    qed
  qed
qed

subsection \<open>The line of a query\<close>

lemma datetime_to_utc_Some:
  "datetime_to_utc (Some ts) = Inr u \<longleftrightarrow>
     (\<exists>d d'. fromisoformat ts = Inr d \<and> astimezone_utc d = Inr d' \<and> u = strftime_utc d')"
  by (auto simp: datetime_to_utc_def and_then_def split: sum.splits)

lemma result_line_Some:
  "datetime_to_utc (Some ts) = Inr u \<Longrightarrow>
     result_line (Some v, Some ts) suffix = Inr (u @ '' '' @ format_4f (to_double v) @ suffix)"
  by (simp add: result_line_def and_then_def)

subsection \<open>What the printed value denotes\<close>

lemma div_mod_real: "real (n div 10000) + real (n mod 10000) / 10000 = real n / 10000"
proof -
  have "real (n div 10000 * 10000 + n mod 10000) = real n" by simp
  then have "real (n div 10000) * 10000 + real (n mod 10000) = real n"
    by (simp only: of_nat_add of_nat_mult of_nat_numeral)
  then show ?thesis by (simp add: field_simps)
qed

lemma format_4f_digits:
  "\<exists>ip fp. format_4f (Finite v) = (if v < 0 then ''-'' else []) @ ip @ ''.'' @ fp
      \<and> all_digits ip \<and> fits ''dddd'' fp
      \<and> \<bar>real (nat_of_digits ip) + real (nat_of_digits fp) / 10000 - \<bar>v\<bar>\<bar> \<le> 1 / 20000"
proof -
  define n where "n = nat (round_half_even (\<bar>v\<bar> * 10000))"
  have a: "format_4f (Finite v)
      = (if v < 0 then ''-'' else []) @ string_of_nat (n div 10000) @ ''.'' @ show4 (n mod 10000)"
    unfolding format_4f_def n_def Let_def by simp
  have c: "all_digits (string_of_nat (n div 10000))" by (rule string_of_nat_digits)
  have nn: "0 \<le> round_half_even (\<bar>v\<bar> * 10000)" by (rule round_half_even_nonneg) simp
  then have rn: "real n = real_of_int (round_half_even (\<bar>v\<bar> * 10000))" by (simp add: n_def)
  have e: "real (nat_of_digits (string_of_nat (n div 10000)))
        + real (nat_of_digits (show4 (n mod 10000))) / 10000 = real n / 10000"
    by (simp add: nat_of_digits_string_of_nat nat_of_digits_show4 div_mod_real)
  have f: "\<bar>real n / 10000 - \<bar>v\<bar>\<bar> \<le> 1 / 20000"
  proof -
    have "\<bar>real n - \<bar>v\<bar> * 10000\<bar> \<le> 1 / 2" unfolding rn by (rule round_half_even_near)
    then show ?thesis by (simp add: abs_le_iff field_simps)
  qed
  have d: "\<bar>real (nat_of_digits (string_of_nat (n div 10000)))
        + real (nat_of_digits (show4 (n mod 10000))) / 10000 - \<bar>v\<bar>\<bar> \<le> 1 / 20000"
    unfolding e by (rule f)
  from a c fits_show4 [of "n mod 10000"] d show ?thesis by blast
qed

lemma nearest_sign:
  "x \<le> 0 \<Longrightarrow> nearest x \<le> 0" "0 \<le> x \<Longrightarrow> 0 \<le> nearest x"
proof -
  define u where "u = (2::real) powr (real_of_int (expo x) - 52)"
  have upos: "0 < u" by (simp add: u_def)
  have n: "nearest x = real_of_int (round_half_even (x / u)) * u"
    by (simp add: nearest_def Let_def u_def)
  show "nearest x \<le> 0" if "x \<le> 0"
  proof -
    from that upos have "x / u \<le> real_of_int 0" by (simp add: divide_nonpos_pos)
    then have "round_half_even (x / u) \<le> 0" by (rule round_half_even_le)
    then have "real_of_int (round_half_even (x / u)) \<le> 0" by simp
    with upos show ?thesis unfolding n by (simp add: mult_le_0_iff)
  qed
  show "0 \<le> nearest x" if "0 \<le> x"
  proof -
    from that upos have "real_of_int 0 \<le> x / u" by simp
    then have "0 \<le> round_half_even (x / u)" by (rule round_half_even_ge)
    then have "0 \<le> real_of_int (round_half_even (x / u))" by simp
    with upos show ?thesis unfolding n by simp
  qed
qed

lemma to_double_negative:
  assumes "x < 0"
  shows "negative (to_double x)"
proof -
  have r: "nearest x \<le> 0" using assms by (intro nearest_sign) simp
  have big: "(0::real) < 2 ^ 1024" by (rule zero_less_power) simp
  have nb: "\<not> 2 ^ 1024 \<le> nearest x" using r big by linarith
  have x0: "x \<noteq> 0" using assms by simp
  show ?thesis
  proof (cases "nearest x \<le> - (2 ^ 1024)")
    case True
    then show ?thesis unfolding to_double_cases [OF x0] using nb
      by (simp only: if_True if_False negative_def double.case)
  next
    case nl: False
    show ?thesis
    proof (cases "nearest x = 0")
      case True
      then show ?thesis unfolding to_double_cases [OF x0] using nb nl assms
        by (simp only: if_True if_False negative_def double.case simp_thms)
    next
      case False
      with r have "nearest x < 0" by simp
      then show ?thesis unfolding to_double_cases [OF x0] using nb nl False
        by (simp only: if_True if_False negative_def double.case)
    qed
  qed
qed

lemma to_double_positive:
  assumes "0 < x"
  shows "\<not> negative (to_double x)"
proof -
  have r: "0 \<le> nearest x" using assms by (intro nearest_sign) simp
  have big: "(0::real) < 2 ^ 1024" by (rule zero_less_power) simp
  have nl: "\<not> nearest x \<le> - (2 ^ 1024)" using r big by linarith
  have x0: "x \<noteq> 0" "\<not> x < 0" using assms by simp_all
  show ?thesis
  proof (cases "2 ^ 1024 \<le> nearest x")
    case True
    then show ?thesis unfolding to_double_cases [OF x0(1)]
      by (simp only: if_True negative_def double.case simp_thms)
  next
    case nb: False
    show ?thesis
    proof (cases "nearest x = 0")
      case True
      then show ?thesis unfolding to_double_cases [OF x0(1)] using nb nl x0(2)
        by (simp only: if_True if_False negative_def double.case) simp
    next
      case False
      with r have "\<not> nearest x < 0" by simp
      then show ?thesis unfolding to_double_cases [OF x0(1)] using nb nl False
        by (simp only: if_True if_False negative_def double.case simp_thms)
    qed
  qed
qed

lemma to_double_NegZero:
  assumes "to_double x = NegZero"
  shows "x < 0"
proof (rule ccontr)
  assume n: "\<not> x < 0"
  show False
  proof (cases "x = 0")
    case True
    with assms show False by (simp add: to_double_def)
  next
    case False
    with n have "0 < x" by simp
    then have "\<not> negative (to_double x)" by (rule to_double_positive)
    with assms show False by (simp add: negative_def)
  qed
qed

text \<open>
  The print of a number in the range of doubles: a minus sign or none (a minus sign for a
  negative number, none for a positive one), digits, a point, four digits. For a number
  that is a double the print is that of the number itself, within \<open>1/20000\<close> of it.
\<close>

lemma format_4f_props:
  assumes "is_finite (to_double v)"
  shows "\<exists>sgn ip fp. format_4f (to_double v) = sgn @ ip @ ''.'' @ fp
      \<and> (sgn = [] \<or> sgn = ''-'') \<and> (v < 0 \<longrightarrow> sgn = ''-'') \<and> (0 < v \<longrightarrow> sgn = [])
      \<and> all_digits ip \<and> fits ''dddd'' fp
      \<and> \<bar>real (nat_of_digits ip) + real (nat_of_digits fp) / 10000 - \<bar>value_of (to_double v)\<bar>\<bar>
           \<le> 1 / 20000"
proof (cases "to_double v")
  case (Finite r)
  from format_4f_digits [of r] obtain ip fp where
    f: "format_4f (Finite r) = (if r < 0 then ''-'' else []) @ ip @ ''.'' @ fp"
      "all_digits ip" "fits ''dddd'' fp"
      "\<bar>real (nat_of_digits ip) + real (nat_of_digits fp) / 10000 - \<bar>r\<bar>\<bar> \<le> 1 / 20000" by blast
  have n: "v < 0 \<longrightarrow> r < 0" using to_double_negative [of v] Finite by (auto simp: negative_def)
  have p: "0 < v \<longrightarrow> \<not> r < 0" using to_double_positive [of v] Finite by (auto simp: negative_def)
  define sgn where "sgn = (if r < 0 then ''-'' else [])"
  have s: "sgn = [] \<or> sgn = ''-''" "v < 0 \<longrightarrow> sgn = ''-''" "0 < v \<longrightarrow> sgn = []"
    using n p by (auto simp: sgn_def)
  have e: "format_4f (to_double v) = sgn @ ip @ ''.'' @ fp"
    using f(1) by (simp add: Finite sgn_def)
  have b: "\<bar>real (nat_of_digits ip) + real (nat_of_digits fp) / 10000 - \<bar>value_of (to_double v)\<bar>\<bar>
      \<le> 1 / 20000"
    using f(4) by (simp add: Finite value_of_def)
  from e s f(2,3) b show ?thesis by blast
next
  case NegZero
  then have v: "v < 0" by (rule to_double_NegZero)
  have e: "format_4f (to_double v) = ''-'' @ ''0'' @ ''.'' @ ''0000''"
    by (simp add: NegZero format_4f_def)
  have d: "all_digits ''0''" "fits ''dddd'' ''0000''"
    by (simp_all add: all_digits_def fits_def is_digit_def)
  have b: "value_of (to_double v) = 0" by (simp add: NegZero value_of_def)
  have nv: "\<not> 0 < v" using v by simp
  show ?thesis
    apply (rule exI [of _ "''-''"])
    apply (rule exI [of _ "''0''"])
    apply (rule exI [of _ "''0000''"])
    using e d v b nv apply (simp add: nat_of_digits_def digit_val_def)
    done
next
  case PInf
  with assms show ?thesis by (simp add: is_finite_def)
next
  case NInf
  with assms show ?thesis by (simp add: is_finite_def)
next
  case NaN
  with assms show ?thesis by (simp add: is_finite_def)
qed

subsection \<open>What the printed stamp denotes\<close>

lemma length_show: "length (show2 n) = 2" "length (show4 n) = 4"
  by (simp_all add: show2_def show4_def)

lemma list_all_show: "list_all is_digit (show2 n)" "list_all is_digit (show4 n)"
  by (simp_all add: show2_def show4_def is_digit_digit_char)

lemma digit_val_bound: "is_digit c \<Longrightarrow> digit_val c \<le> 9"
  unfolding is_digit_def digit_val_def by linarith

lemma nat_of_digits_bound: "list_all is_digit ds \<Longrightarrow> nat_of_digits ds < 10 ^ length ds"
proof (induction ds rule: rev_induct)
  case Nil
  show ?case by (simp add: nat_of_digits_def)
next
  case (snoc c ds)
  then have "nat_of_digits ds < 10 ^ length ds" "digit_val c \<le> 9"
    by (simp_all add: digit_val_bound)
  then have "10 * nat_of_digits ds + digit_val c < 10 * 10 ^ length ds" by linarith
  then show ?case by (simp add: nat_of_digits_snoc)
qed

lemma fromisoformat_year_le:
  assumes "fromisoformat s = Inr d"
  shows "dt_year d \<le> 9999"
proof -
  from assms have l: "length s = 25" and a: "list_all is_digit (field 0 4 s)"
    and y: "dt_year d = nat_of_digits (field 0 4 s)"
    unfolding fromisoformat_def Let_def by (auto split: if_splits)
  from l have "length (field 0 4 s) = 4" by (simp add: field_def)
  with nat_of_digits_bound [OF a] have "nat_of_digits (field 0 4 s) < 10 ^ 4" by simp
  with y show ?thesis by simp
qed

lemma astimezone_utc_year_le:
  assumes "astimezone_utc d = Inr u" and "dt_year d \<le> 9999"
  shows "dt_year u \<le> 9999"
  using assms
  by (auto simp: astimezone_utc_def Let_def prev_day_def next_day_def
      split: option.splits prod.splits if_splits)

lemma string_of_nat_four_digits:
  assumes "1000 \<le> y" and "y \<le> 9999"
  shows "string_of_nat y = show4 y"
proof -
  have h: "y div 10 div 10 = y div 100" "y div 100 div 10 = y div 1000"
    using div_mult2_eq [of y 10 10] div_mult2_eq [of y 100 10] by simp_all
  have g: "\<not> y < 10" "\<not> y div 10 < 10" "\<not> y div 100 < 10" "y div 1000 < 10"
    using assms by simp_all
  have a: "string_of_nat y = string_of_nat (y div 10) @ [digit_char y]"
    using string_of_nat.simps [of y] g(1) by simp
  have b: "string_of_nat (y div 10) = string_of_nat (y div 100) @ [digit_char (y div 10)]"
    using string_of_nat.simps [of "y div 10"] g(2) h(1) by simp
  have c: "string_of_nat (y div 100) = string_of_nat (y div 1000) @ [digit_char (y div 100)]"
    using string_of_nat.simps [of "y div 100"] g(3) h(2) by simp
  have d: "string_of_nat (y div 1000) = [digit_char (y div 1000)]"
    using string_of_nat.simps [of "y div 1000"] g(4) by simp
  show ?thesis by (simp add: a b c d show4_def)
qed

lemma strftime_utc_four_digits:
  assumes "1000 \<le> dt_year u" and "dt_year u \<le> 9999"
  shows "strftime_utc u =
     show4 (dt_year u) @ ''-'' @ show2 (dt_month u) @ ''-'' @ show2 (dt_day u) @ ''T''
       @ show2 (dt_hour u) @ '':'' @ show2 (dt_minute u) @ '':'' @ show2 (dt_second u) @ ''Z''"
  by (simp add: strftime_utc_def string_of_nat_four_digits [OF assms])

lemma strftime_utc_fits:
  assumes "1000 \<le> dt_year u" and "dt_year u \<le> 9999"
  shows "fits ''dddd-dd-ddTdd:dd:ddZ'' (strftime_utc u)"
proof -
  have "fits (''dddd'' @ ''-'' @ ''dd'' @ ''-'' @ ''dd'' @ ''T'' @ ''dd'' @ '':'' @ ''dd'' @ '':'' @ ''dd'' @ ''Z'')
     (strftime_utc u)"
    unfolding strftime_utc_four_digits [OF assms]
    by (intro fits_append fits_show2 fits_show4 fits_same) simp_all
  then show ?thesis by simp
qed

lemma strftime_utc_reads_back:
  assumes "1000 \<le> dt_year u" "dt_year u \<le> 9999" "1 \<le> dt_month u" "dt_month u \<le> 12"
    "1 \<le> dt_day u" "dt_day u \<le> days_in_month (dt_year u) (dt_month u)"
    "dt_hour u \<le> 23" "dt_minute u \<le> 59" "dt_second u \<le> 59" "dt_offset u = 0"
  shows "fromisoformat (butlast (strftime_utc u) @ ''+00:00'') = Inr u"
proof -
  define s where "s = show4 (dt_year u) @ ''-'' @ show2 (dt_month u) @ ''-'' @ show2 (dt_day u)
    @ ''T'' @ show2 (dt_hour u) @ '':'' @ show2 (dt_minute u) @ '':'' @ show2 (dt_second u)
    @ ''+00:00''"
  have bs: "butlast (strftime_utc u) @ ''+00:00'' = s"
    by (simp add: strftime_utc_four_digits [OF assms(1,2)] s_def butlast_append length_show)
  have len: "length s = 25" by (simp add: s_def length_show)
  have f: "field 0 4 s = show4 (dt_year u)" "field 5 2 s = show2 (dt_month u)"
    "field 8 2 s = show2 (dt_day u)" "field 11 2 s = show2 (dt_hour u)"
    "field 14 2 s = show2 (dt_minute u)" "field 17 2 s = show2 (dt_second u)"
    "field 20 2 s = ''00''" "field 23 2 s = ''00''"
    by (simp_all add: field_def s_def length_show)
  have c: "s ! 4 = CHR ''-''" "s ! 7 = CHR ''-''" "s ! 10 = CHR ''T''" "s ! 13 = CHR '':''"
    "s ! 16 = CHR '':''" "s ! 19 = CHR ''+''" "s ! 22 = CHR '':''"
    by (simp_all add: s_def nth_append length_show)
  have z0: "is_digit CHR ''0''" by (simp add: is_digit_def)
  have z: "list_all is_digit ''00''" "nat_of_digits ''00'' = 0"
    by (simp_all add: is_digit_def nat_of_digits_def digit_val_def)
  have n: "nat_of_digits (show4 (dt_year u)) = dt_year u"
    "nat_of_digits (show2 (dt_month u)) = dt_month u"
    "nat_of_digits (show2 (dt_day u)) = dt_day u"
    "nat_of_digits (show2 (dt_hour u)) = dt_hour u"
    "nat_of_digits (show2 (dt_minute u)) = dt_minute u"
    "nat_of_digits (show2 (dt_second u)) = dt_second u"
  proof -
    have "dt_day u \<le> 31" using assms(6) by (simp add: days_in_month_def split: if_splits)
    then show "nat_of_digits (show2 (dt_day u)) = dt_day u" by (simp add: nat_of_digits_show2)
  qed (use assms in \<open>simp_all add: nat_of_digits_show2 nat_of_digits_show4\<close>)
  have "fromisoformat s = Inr \<lparr>dt_year = dt_year u, dt_month = dt_month u, dt_day = dt_day u,
      dt_hour = dt_hour u, dt_minute = dt_minute u, dt_second = dt_second u, dt_offset = 0\<rparr>"
    unfolding fromisoformat_def Let_def f c z n
    using assms len z0 by (simp add: list_all_show)
  also have "\<dots> = Inr u" using assms(10) by simp
  finally show ?thesis by (simp add: bs)
qed


subsection \<open>The example of the specification\<close>

lemma char_of_digits:
  "char_of (48::nat) = CHR ''0''" "char_of (49::nat) = CHR ''1''" "char_of (50::nat) = CHR ''2''"
  "char_of (51::nat) = CHR ''3''" "char_of (52::nat) = CHR ''4''" "char_of (53::nat) = CHR ''5''"
  "char_of (54::nat) = CHR ''6''" "char_of (55::nat) = CHR ''7''" "char_of (56::nat) = CHR ''8''"
  "char_of (57::nat) = CHR ''9''"
  by code_simp+

lemmas datetime_simps = char_of_digits datetime_to_utc_def fromisoformat_def field_def is_digit_def
  nat_of_digits_def digit_val_def days_in_month_def is_leap_def astimezone_utc_def prev_day_def
  next_day_def strftime_utc_def show2_def show4_def digit_char_def and_then_def Let_def
  string_of_nat.simps

lemma ex_utc_1: "datetime_to_utc (Some ''2023-01-01T00:00:00-08:00'') = Inr ''2023-01-01T08:00:00Z''"
  by (simp add: datetime_simps)

lemma ex_utc_2: "datetime_to_utc (Some ''2023-01-01T01:00:00-08:00'') = Inr ''2023-01-01T09:00:00Z''"
  by (simp add: datetime_simps)

lemma ex_utc_999: "datetime_to_utc (Some ''0999-06-15T12:00:00+00:00'') = Inr ''999-06-15T12:00:00Z''"
  by (simp add: datetime_simps)

lemma ex_year_1: "\<exists>d u. fromisoformat ''2023-01-01T00:00:00-08:00'' = Inr d
    \<and> astimezone_utc d = Inr u \<and> 1000 \<le> dt_year u"
  by (simp add: datetime_simps)

lemma ex_year_2: "\<exists>d u. fromisoformat ''2023-01-01T01:00:00-08:00'' = Inr d
    \<and> astimezone_utc d = Inr u \<and> 1000 \<le> dt_year u"
  by (simp add: datetime_simps)

lemma expo_40: "expo 40 = 5"
  by (rule expo_eqI) simp_all

lemma expo_50: "expo 50 = 5"
  by (rule expo_eqI) simp_all

lemma expo_70: "expo 70 = 6"
  by (rule expo_eqI) simp_all

lemma expo_75: "expo 75 = 6"
  by (rule expo_eqI) simp_all

lemma to_double_40: "to_double 40 = Finite 40"
  by (rule to_double_evalI [OF expo_40]) (simp_all add: round_half_even_def powr_neg_numeral)

lemma to_double_50: "to_double 50 = Finite 50"
  by (rule to_double_evalI [OF expo_50]) (simp_all add: round_half_even_def powr_neg_numeral)

lemma to_double_70: "to_double 70 = Finite 70"
  by (rule to_double_evalI [OF expo_70]) (simp_all add: round_half_even_def powr_neg_numeral)

lemma to_double_75: "to_double 75 = Finite 75"
  by (rule to_double_evalI [OF expo_75]) (simp_all add: round_half_even_def powr_neg_numeral)

lemma ex_fmt_40: "format_4f (to_double 40) = ''40.0000''"
  by (simp add: to_double_40 format_4f_def round_half_even_def show4_def digit_char_def Let_def
      char_of_digits string_of_nat.simps)

lemma ex_fmt_70: "format_4f (to_double 70) = ''70.0000''"
  by (simp add: to_double_70 format_4f_def round_half_even_def show4_def digit_char_def Let_def
      char_of_digits string_of_nat.simps)

lemma ex_fmt_75: "format_4f (to_double 75) = ''75.0000''"
  by (simp add: to_double_75 format_4f_def round_half_even_def show4_def digit_char_def Let_def
      char_of_digits string_of_nat.simps)


subsection \<open>The format of the line\<close>

text \<open>
  Claim C9 as the specification states it does not hold: a start time whose UTC year is
  below 1000 is printed with fewer than four digits of the year. The air temperature of
  the one period that starts at noon of the 15th of June 999, UTC, is reported on the line
  \<^verbatim>\<open>999-06-15T12:00:00Z 70.0000\<close>, whose stamp is not of the form \<^verbatim>\<open>YYYY-MM-DDTHH:MM:SSZ\<close>.
\<close>

theorem query_result_year_counterexample:
  "air_temperature
     [\<lparr>startTime = ''0999-06-15T12:00:00+00:00'', temperature = 70, relativeHumidity = 50,
       windSpeed = ''5 mph'', probabilityOfPrecipitation = 10\<rparr>] ''F'' 1 ''MAX''
     = Inr ''999-06-15T12:00:00Z 70.0000''
   \<and> \<not> fits ''dddd-dd-ddTdd:dd:ddZ'' ''999-06-15T12:00:00Z''"
  by (simp add: air_temperature_def extremum_scan_def air_item_F process_curr_item_def
      and_then_def result_line_def ex_utc_999 ex_fmt_70 fits_def)

text \<open>
  Claim C9, amended. Take a window of \<open>len \<ge> 1\<close> periods that the forecast holds, a loop
  body that yields the value \<open>g p\<close> on each period of the window, values in the range of
  doubles, and start times whose conversion to UTC falls in a year from 1000 on. Then every
  query returns a line. The line starts with the winning period's start time \<open>d\<close> converted
  to UTC: the datetime \<open>u\<close> of offset 0 that denotes the same instant, printed in the picture
  \<^verbatim>\<open>dddd-dd-ddTdd:dd:ddZ\<close> (read with \<^verbatim>\<open>+00:00\<close> in the place of \<^verbatim>\<open>Z\<close>, the print is \<open>u\<close>
  again). A space follows, then the value: a minus sign or none, digits, a point and
  exactly four digits. The lines of the humidity and of the chance of precipitation end
  with \<^verbatim>\<open>%\<close>.

  For the queries that print a number of the forecast as it is (the air temperature in a
  scale other than \<^verbatim>\<open>C\<close>, the humidity, the wind speed, the chance of precipitation) the
  number printed is the one of the winning period, rounded to a double and then to four
  decimals: it has a minus sign when the number is negative and none when it is positive,
  lies within \<open>1/20000\<close> of the double, and, the number not being 0, the print is
  \<open>format_4f\<close> of the double. (Python has two zeros, which print as \<^verbatim>\<open>0.0000\<close> and
  \<^verbatim>\<open>-0.0000\<close>.) The temperature in Celsius and the feels-like temperature are computed by
  Python with a rounding at each operation: of their prints only the shape is stated.
\<close>

theorem query_result_format:
  assumes "1 \<le> len" and "len \<le> int (length periods)"
    and "\<forall>j<nat len. item (periods ! j) = Inr (g (periods ! j))"
    and "\<forall>j<nat len. is_finite (to_double (g (periods ! j)))"
    and "\<forall>j<nat len. \<exists>d u. fromisoformat (startTime (periods ! j)) = Inr d
           \<and> astimezone_utc d = Inr u \<and> 1000 \<le> dt_year u"
  shows "\<exists>m d u val sgn ip fp. m < nat len
      \<and> extremum_scan item periods len limit
           = Inr (Some (g (periods ! m)), Some (startTime (periods ! m)))
      \<and> fromisoformat (startTime (periods ! m)) = Inr d
      \<and> astimezone_utc d = Inr u \<and> dt_offset u = 0 \<and> instant u = instant d
      \<and> fits ''dddd-dd-ddTdd:dd:ddZ'' (strftime_utc u)
      \<and> fromisoformat (butlast (strftime_utc u) @ ''+00:00'') = Inr u
      \<and> val = sgn @ ip @ ''.'' @ fp \<and> (sgn = [] \<or> sgn = ''-'')
      \<and> all_digits ip \<and> fits ''dddd'' fp
      \<and> ((item = air_item scale \<and> scale \<noteq> ''C'') \<or> item = humidity_item \<or> item = wind_item
            \<or> item = precipitation_item \<longrightarrow>
          (g (periods ! m) < 0 \<longrightarrow> sgn = ''-'') \<and> (0 < g (periods ! m) \<longrightarrow> sgn = [])
          \<and> \<bar>real (nat_of_digits ip) + real (nat_of_digits fp) / 10000
               - \<bar>value_of (to_double (g (periods ! m)))\<bar>\<bar> \<le> 1 / 20000
          \<and> (g (periods ! m) \<noteq> 0 \<longrightarrow> val = format_4f (to_double (g (periods ! m)))))
      \<and> (item = air_item scale \<longrightarrow> air_temperature periods scale len limit
            = Inr (strftime_utc u @ '' '' @ val))
      \<and> (item = feels_like_item scale \<longrightarrow> feels_like_temperature periods scale len limit
            = Inr (strftime_utc u @ '' '' @ val))
      \<and> (item = humidity_item \<longrightarrow> humidity periods len limit
            = Inr (strftime_utc u @ '' '' @ val @ ''%''))
      \<and> (item = wind_item \<longrightarrow> wind_speed periods len limit
            = Inr (strftime_utc u @ '' '' @ val))
      \<and> (item = precipitation_item \<longrightarrow> chance_of_precipitation periods len limit
            = Inr (strftime_utc u @ '' '' @ val @ ''%''))"
proof -
  from extremum_scan_first_best [OF assms(1-3), of limit] obtain m where
    m: "m < nat len" "extremum_scan item periods len limit
          = Inr (Some (g (periods ! m)), Some (startTime (periods ! m)))" by blast
  from assms(5) m(1) obtain d u where d: "fromisoformat (startTime (periods ! m)) = Inr d"
    and u: "astimezone_utc d = Inr u" and y: "1000 \<le> dt_year u" by blast
  have s: "datetime_to_utc (Some (startTime (periods ! m))) = Inr (strftime_utc u)"
    using d u by (auto simp: datetime_to_utc_Some)
  from fromisoformat_valid [OF d] have
    v: "1 \<le> dt_year d" "1 \<le> dt_month d" "dt_month d \<le> 12" "1 \<le> dt_day d"
      "dt_day d \<le> days_in_month (dt_year d) (dt_month d)" "dt_hour d \<le> 23" "dt_minute d \<le> 59"
      "- 1440 < dt_offset d" "dt_offset d < 1440" by simp_all
  from astimezone_utc_instant [OF v u] have i: "dt_offset u = 0" "instant u = instant d"
    and vu: "1 \<le> dt_month u" "dt_month u \<le> 12" "1 \<le> dt_day u"
      "dt_day u \<le> days_in_month (dt_year u) (dt_month u)" "dt_hour u \<le> 23"
      "dt_minute u \<le> 59"
    and su': "dt_second u = dt_second d"
    by simp_all
  from fromisoformat_valid [OF d] su' have sec: "dt_second u \<le> 59" by simp
  have yr: "dt_year u \<le> 9999"
    using astimezone_utc_year_le [OF u fromisoformat_year_le [OF d]] .
  have reads: "fromisoformat (butlast (strftime_utc u) @ ''+00:00'') = Inr u"
    using strftime_utc_reads_back [OF y yr vu sec i(1)] .
  have pic: "fits ''dddd-dd-ddTdd:dd:ddZ'' (strftime_utc u)"
    using strftime_utc_fits [OF y yr] .
  from assms(4) m(1) have fin: "is_finite (to_double (g (periods ! m)))" by blast
  define val where "val = format_4f (to_double (g (periods ! m)))"
  from format_4f_props [OF fin] obtain sgn ip fp where
    f: "val = sgn @ ip @ ''.'' @ fp" "sgn = [] \<or> sgn = ''-''"
      "g (periods ! m) < 0 \<longrightarrow> sgn = ''-''" "0 < g (periods ! m) \<longrightarrow> sgn = []"
      "all_digits ip" "fits ''dddd'' fp"
      "\<bar>real (nat_of_digits ip) + real (nat_of_digits fp) / 10000
         - \<bar>value_of (to_double (g (periods ! m)))\<bar>\<bar> \<le> 1 / 20000"
    unfolding val_def by blast
  have num: "(item = air_item scale \<and> scale \<noteq> ''C'') \<or> item = humidity_item \<or> item = wind_item
            \<or> item = precipitation_item \<longrightarrow>
          (g (periods ! m) < 0 \<longrightarrow> sgn = ''-'') \<and> (0 < g (periods ! m) \<longrightarrow> sgn = [])
          \<and> \<bar>real (nat_of_digits ip) + real (nat_of_digits fp) / 10000
               - \<bar>value_of (to_double (g (periods ! m)))\<bar>\<bar> \<le> 1 / 20000
          \<and> (g (periods ! m) \<noteq> 0 \<longrightarrow> val = format_4f (to_double (g (periods ! m))))"
    using f(3,4,7) val_def by blast
  have line: "\<And>suffix. and_then (extremum_scan item periods len limit) (\<lambda>st. result_line st suffix)
      = Inr (strftime_utc u @ '' '' @ val @ suffix)"
    using m(2) result_line_Some [OF s] by (simp add: and_then_def val_def)
  have q1: "item = air_item scale \<longrightarrow> air_temperature periods scale len limit
            = Inr (strftime_utc u @ '' '' @ val)"
    using line [of "[]"] by (auto simp: air_temperature_def)
  have q2: "item = feels_like_item scale \<longrightarrow> feels_like_temperature periods scale len limit
            = Inr (strftime_utc u @ '' '' @ val)"
    using line [of "[]"] by (auto simp: feels_like_temperature_def)
  have q3: "item = humidity_item \<longrightarrow> humidity periods len limit
            = Inr (strftime_utc u @ '' '' @ val @ ''%'')"
    using line [of "''%''"] by (auto simp: humidity_def)
  have q4: "item = wind_item \<longrightarrow> wind_speed periods len limit
            = Inr (strftime_utc u @ '' '' @ val)"
    using line [of "[]"] by (auto simp: wind_speed_def)
  have q5: "item = precipitation_item \<longrightarrow> chance_of_precipitation periods len limit
            = Inr (strftime_utc u @ '' '' @ val @ ''%'')"
    using line [of "''%''"] by (auto simp: chance_of_precipitation_def)
  show ?thesis
    apply (rule exI [of _ m])
    apply (rule exI [of _ d])
    apply (rule exI [of _ u])
    apply (rule exI [of _ val])
    apply (rule exI [of _ sgn])
    apply (rule exI [of _ ip])
    apply (rule exI [of _ fp])
    apply (intro conjI)
    apply (rule m(1))
    apply (rule m(2))
    apply (rule d)
    apply (rule u)
    apply (rule i(1))
    apply (rule i(2))
    apply (rule pic)
    apply (rule reads)
    apply (rule f(1))
    apply (rule f(2))
    apply (rule f(5))
    apply (rule f(6))
    apply (rule num)
    apply (rule q1)
    apply (rule q2)
    apply (rule q3)
    apply (rule q4)
    apply (rule q5)
    done
qed

text \<open>
  The end-to-end example: the two periods at 00:00 and 01:00 of 2023-01-01, offset -08:00.
  The maximal air temperature is printed as \<^verbatim>\<open>2023-01-01T09:00:00Z 75.0000\<close>, the minimal
  humidity as \<^verbatim>\<open>2023-01-01T09:00:00Z 40.0000%\<close>.
\<close>

theorem query_result_example:
  "(1::int) \<le> 2
   \<and> (2::int) \<le> int (length
        [\<lparr>startTime = ''2023-01-01T00:00:00-08:00'', temperature = 70, relativeHumidity = 50,
          windSpeed = ''5 mph'', probabilityOfPrecipitation = 10\<rparr>,
         \<lparr>startTime = ''2023-01-01T01:00:00-08:00'', temperature = 75, relativeHumidity = 40,
          windSpeed = ''10 mph'', probabilityOfPrecipitation = 20\<rparr>])
   \<and> air_temperature
        [\<lparr>startTime = ''2023-01-01T00:00:00-08:00'', temperature = 70, relativeHumidity = 50,
          windSpeed = ''5 mph'', probabilityOfPrecipitation = 10\<rparr>,
         \<lparr>startTime = ''2023-01-01T01:00:00-08:00'', temperature = 75, relativeHumidity = 40,
          windSpeed = ''10 mph'', probabilityOfPrecipitation = 20\<rparr>] ''F'' 2 ''MAX''
       = Inr ''2023-01-01T09:00:00Z 75.0000''
   \<and> humidity
        [\<lparr>startTime = ''2023-01-01T00:00:00-08:00'', temperature = 70, relativeHumidity = 50,
          windSpeed = ''5 mph'', probabilityOfPrecipitation = 10\<rparr>,
         \<lparr>startTime = ''2023-01-01T01:00:00-08:00'', temperature = 75, relativeHumidity = 40,
          windSpeed = ''10 mph'', probabilityOfPrecipitation = 20\<rparr>] 2 ''MIN''
       = Inr ''2023-01-01T09:00:00Z 40.0000%''"
proof -
  let ?ps = "[\<lparr>startTime = ''2023-01-01T00:00:00-08:00'', temperature = 70, relativeHumidity = 50,
          windSpeed = ''5 mph'', probabilityOfPrecipitation = 10\<rparr>,
         \<lparr>startTime = ''2023-01-01T01:00:00-08:00'', temperature = 75, relativeHumidity = 40,
          windSpeed = ''10 mph'', probabilityOfPrecipitation = 20\<rparr>]"
  have h1: "(1::int) \<le> 2" by simp
  have h2: "(2::int) \<le> int (length ?ps)" by simp
  have h3: "\<forall>j<nat 2. air_item ''F'' (?ps ! j) = Inr (temperature (?ps ! j))"
    by (simp add: air_item_F)
  have h3': "\<forall>j<nat 2. humidity_item (?ps ! j) = Inr (relativeHumidity (?ps ! j))"
    by (simp add: humidity_item_def)
  have h4: "\<forall>j<nat 2. is_finite (to_double (temperature (?ps ! j)))"
    by (simp add: less_Suc_eq nth_Cons' numeral_2_eq_2 to_double_70 to_double_75 is_finite_def)
  have h4': "\<forall>j<nat 2. is_finite (to_double (relativeHumidity (?ps ! j)))"
    by (simp add: less_Suc_eq nth_Cons' numeral_2_eq_2 to_double_50 to_double_40 is_finite_def)
  have h5: "\<forall>j<nat 2. \<exists>d u. fromisoformat (startTime (?ps ! j)) = Inr d
      \<and> astimezone_utc d = Inr u \<and> 1000 \<le> dt_year u"
    using ex_year_1 ex_year_2 by (simp add: less_Suc_eq nth_Cons' numeral_2_eq_2)
  have scan_air: "extremum_scan (air_item ''F'') ?ps 2 ''MAX''
      = Inr (Some 75, Some ''2023-01-01T01:00:00-08:00'')"
    by (simp add: extremum_scan_def air_item_F process_curr_item_def numeral_2_eq_2)
  have scan_hum: "extremum_scan humidity_item ?ps 2 ''MIN''
      = Inr (Some 40, Some ''2023-01-01T01:00:00-08:00'')"
    by (simp add: extremum_scan_def humidity_item_def process_curr_item_def numeral_2_eq_2)
  from query_result_format [where item = "air_item ''F''" and g = temperature and limit = "''MAX''"
      and scale = "''F''", OF h1 h2 h3 h4 h5]
  obtain m d u val where
    a: "extremum_scan (air_item ''F'') ?ps 2 ''MAX''
          = Inr (Some (temperature (?ps ! m)), Some (startTime (?ps ! m)))"
      "fromisoformat (startTime (?ps ! m)) = Inr d" "astimezone_utc d = Inr u"
      "(air_item ''F'' = air_item ''F'' \<and> ''F'' \<noteq> ''C'') \<or> air_item ''F'' = humidity_item
         \<or> air_item ''F'' = wind_item \<or> air_item ''F'' = precipitation_item \<longrightarrow>
       (temperature (?ps ! m) \<noteq> 0 \<longrightarrow> val = format_4f (to_double (temperature (?ps ! m))))"
      "air_temperature ?ps ''F'' 2 ''MAX'' = Inr (strftime_utc u @ '' '' @ val)"
    by blast
  from a(1) scan_air have w: "temperature (?ps ! m) = 75"
    "startTime (?ps ! m) = ''2023-01-01T01:00:00-08:00''" by simp_all
  from a(2,3) have "datetime_to_utc (Some (startTime (?ps ! m))) = Inr (strftime_utc u)"
    by (auto simp: datetime_to_utc_Some)
  with w(2) ex_utc_2 have su: "strftime_utc u = ''2023-01-01T09:00:00Z''" by simp
  from a(4) w(1) have "val = format_4f (to_double 75)" by simp
  with su a(5) ex_fmt_75 have r1: "air_temperature ?ps ''F'' 2 ''MAX''
       = Inr ''2023-01-01T09:00:00Z 75.0000''" by simp
  from query_result_format [where item = humidity_item and g = relativeHumidity
      and limit = "''MIN''" and scale = "''F''", OF h1 h2 h3' h4' h5]
  obtain k e v val' where
    b: "extremum_scan humidity_item ?ps 2 ''MIN''
          = Inr (Some (relativeHumidity (?ps ! k)), Some (startTime (?ps ! k)))"
      "fromisoformat (startTime (?ps ! k)) = Inr e" "astimezone_utc e = Inr v"
      "(humidity_item = air_item ''F'' \<and> ''F'' \<noteq> ''C'') \<or> humidity_item = humidity_item
         \<or> humidity_item = wind_item \<or> humidity_item = precipitation_item \<longrightarrow>
       (relativeHumidity (?ps ! k) \<noteq> 0 \<longrightarrow> val' = format_4f (to_double (relativeHumidity (?ps ! k))))"
      "humidity ?ps 2 ''MIN'' = Inr (strftime_utc v @ '' '' @ val' @ ''%'')"
    by blast
  from b(1) scan_hum have x: "relativeHumidity (?ps ! k) = 40"
    "startTime (?ps ! k) = ''2023-01-01T01:00:00-08:00''" by simp_all
  from b(2,3) have "datetime_to_utc (Some (startTime (?ps ! k))) = Inr (strftime_utc v)"
    by (auto simp: datetime_to_utc_Some)
  with x(2) ex_utc_2 have sv: "strftime_utc v = ''2023-01-01T09:00:00Z''" by simp
  from b(4) x(1) have "val' = format_4f (to_double 40)" by simp
  with sv b(5) ex_fmt_40 have r2: "humidity ?ps 2 ''MIN''
       = Inr ''2023-01-01T09:00:00Z 40.0000%''" by simp
  from h1 h2 r1 r2 show ?thesis by blast
qed


section \<open>The window of a query\<close>

lemma scan_no_IndexError:
  assumes "\<And>p. item p \<noteq> Inl IndexError" and "i + k \<le> length ps"
  shows "scan_periods item ps limit k i st \<noteq> Inl IndexError"
  using assms(2)
proof (induction k arbitrary: i st)
  case 0
  show ?case by simp
next
  case (Suc k)
  obtain target target_datetime where st: "st = (target, target_datetime)" by (cases st)
  have i: "i < length ps" using Suc.prems by simp
  show ?case
  proof (cases "item (ps ! i)")
    case (Inl e)
    with assms(1) [of "ps ! i"] have "e \<noteq> IndexError" by auto
    with Inl i show ?thesis by (simp add: st)
  next
    case (Inr v)
    have "Suc i + k \<le> length ps" using Suc.prems by simp
    from Suc.IH [OF this] Inr i show ?thesis by (simp add: st)
  qed
qed

lemma split_on_not_Nil: "split_on sep s \<noteq> []"
  by (induction s) (auto split: list.splits)

lemma py_float_str_error: "py_float_str s = Inl e \<Longrightarrow> e = ValueError"
  by (auto simp: py_float_str_def Let_def split: prod.splits list.splits if_splits)

lemma simplify_wind_speed_error: "simplify_wind_speed s = Inl e \<Longrightarrow> e = ValueError"
proof -
  assume a: "simplify_wind_speed s = Inl e"
  obtain w ws where "split_on CHR '' '' s = w # ws"
    using split_on_not_Nil [of "CHR '' ''" s] by (cases "split_on CHR '' '' s") auto
  with a have "py_float_str w = Inl e"
    by (simp add: simplify_wind_speed_def subscript_def and_then_def)
  then show ?thesis by (rule py_float_str_error)
qed

lemma item_no_IndexError:
  "air_item scale p \<noteq> Inl IndexError" "feels_like_item scale p \<noteq> Inl IndexError"
  "humidity_item p \<noteq> Inl IndexError" "wind_item p \<noteq> Inl IndexError"
  "precipitation_item p \<noteq> Inl IndexError"
proof -
  show "air_item scale p \<noteq> Inl IndexError" by (simp add: air_item_def Let_def)
  show "humidity_item p \<noteq> Inl IndexError" by (simp add: humidity_item_def)
  show "precipitation_item p \<noteq> Inl IndexError" by (simp add: precipitation_item_def)
  show "wind_item p \<noteq> Inl IndexError"
    using simplify_wind_speed_error [of "windSpeed p" IndexError] by (auto simp: wind_item_def)
  show "feels_like_item scale p \<noteq> Inl IndexError"
    using simplify_wind_speed_error [of "windSpeed p" IndexError]
    by (auto simp: feels_like_item_def and_then_def Let_def split: sum.splits)
qed

lemma datetime_to_utc_no_IndexError: "datetime_to_utc t \<noteq> Inl IndexError"
proof (cases t)
  case None
  then show ?thesis by (simp add: datetime_to_utc_def)
next
  case (Some s)
  have f: "fromisoformat s \<noteq> Inl IndexError" by (simp add: fromisoformat_def Let_def)
  have a: "\<And>d. astimezone_utc d \<noteq> Inl IndexError"
    by (auto simp: astimezone_utc_def Let_def split: option.splits prod.splits)
  show ?thesis using f a
    by (auto simp: Some datetime_to_utc_def and_then_def split: sum.splits)
qed

lemma result_line_no_IndexError: "result_line st suffix \<noteq> Inl IndexError"
  using datetime_to_utc_no_IndexError [of "snd st"]
  by (auto simp: result_line_def and_then_def split: prod.splits sum.splits option.splits)

lemma clamped_query_no_IndexError:
  assumes "\<And>p. item p \<noteq> Inl IndexError"
  shows "and_then (extremum_scan item periods (min n (int (length periods))) limit)
           (\<lambda>st. result_line st suffix) \<noteq> Inl IndexError"
proof -
  have "0 + nat (min n (int (length periods))) \<le> length periods" by simp
  from scan_no_IndexError [OF assms this]
  have "extremum_scan item periods (min n (int (length periods))) limit \<noteq> Inl IndexError"
    by (simp add: extremum_scan_def)
  then show ?thesis using result_line_no_IndexError
    by (auto simp: and_then_def split: sum.splits)
qed


lemma run_query_temperature:
  assumes "split_on CHR '' '' query = ''TEMPERATURE'' # query_type # scale # a # limit # rest"
    and "py_int a = Inr n"
  shows "run_query query periods acc =
           (if query_type = ''AIR'' then
              and_then (air_temperature periods scale (min n (int (length periods))) limit)
                (\<lambda>r. Inr (acc @ [r]))
            else if query_type = ''FEELS'' then
              and_then (feels_like_temperature periods scale (min n (int (length periods))) limit)
                (\<lambda>r. Inr (acc @ [r]))
            else Inr acc)"
  using assms
  by (simp add: run_query_def Let_def subscript_def and_then_def
      available_num_of_time_periods_def)

lemma run_query_other:
  assumes "split_on CHR '' '' query = query_type # a # limit # rest"
    and "query_type \<noteq> ''TEMPERATURE''"
    and "py_int a = Inr n"
  shows "run_query query periods acc =
           (if query_type = ''HUMIDITY'' then
              and_then (humidity periods (min n (int (length periods))) limit)
                (\<lambda>r. Inr (acc @ [r]))
            else if query_type = ''WIND'' then
              and_then (wind_speed periods (min n (int (length periods))) limit)
                (\<lambda>r. Inr (acc @ [r]))
            else if query_type = ''PRECIPITATION'' then
              and_then (chance_of_precipitation periods (min n (int (length periods))) limit)
                (\<lambda>r. Inr (acc @ [r]))
            else Inr acc)"
  using assms
  by (simp add: run_query_def Let_def subscript_def and_then_def
      available_num_of_time_periods_def)

text \<open>
  Claim C7. A query whose length field reads as the integer \<open>n\<close> is answered over the window
  \<open>w = min n (number of periods)\<close>: each of the five kinds of query calls its function of
  \<open>data_processing\<close> with \<open>w\<close> and appends the line (an error of the function is the only
  error). The window never exceeds the forecast, and none of the five functions raises
  \<open>IndexError\<close> on it. For \<open>n\<close> at least the number of periods, \<open>w\<close> is that number, so
  the answer is the one over exactly the periods available.
\<close>

theorem query_window_clamped:
  assumes "py_int a = Inr n" and "w = min n (int (length periods))"
  shows "(split_on CHR '' '' query = ''TEMPERATURE'' # ''AIR'' # scale # a # limit # rest \<longrightarrow>
            run_query query periods acc
              = and_then (air_temperature periods scale w limit) (\<lambda>r. Inr (acc @ [r])))
       \<and> (split_on CHR '' '' query = ''TEMPERATURE'' # ''FEELS'' # scale # a # limit # rest \<longrightarrow>
            run_query query periods acc
              = and_then (feels_like_temperature periods scale w limit) (\<lambda>r. Inr (acc @ [r])))
       \<and> (split_on CHR '' '' query = ''HUMIDITY'' # a # limit # rest \<longrightarrow>
            run_query query periods acc
              = and_then (humidity periods w limit) (\<lambda>r. Inr (acc @ [r])))
       \<and> (split_on CHR '' '' query = ''WIND'' # a # limit # rest \<longrightarrow>
            run_query query periods acc
              = and_then (wind_speed periods w limit) (\<lambda>r. Inr (acc @ [r])))
       \<and> (split_on CHR '' '' query = ''PRECIPITATION'' # a # limit # rest \<longrightarrow>
            run_query query periods acc
              = and_then (chance_of_precipitation periods w limit) (\<lambda>r. Inr (acc @ [r])))
       \<and> w \<le> int (length periods)
       \<and> air_temperature periods scale w limit \<noteq> Inl IndexError
       \<and> feels_like_temperature periods scale w limit \<noteq> Inl IndexError
       \<and> humidity periods w limit \<noteq> Inl IndexError
       \<and> wind_speed periods w limit \<noteq> Inl IndexError
       \<and> chance_of_precipitation periods w limit \<noteq> Inl IndexError
       \<and> (int (length periods) \<le> n \<longrightarrow>
            w = int (length periods)
            \<and> air_temperature periods scale w limit
                = air_temperature periods scale (int (length periods)) limit
            \<and> feels_like_temperature periods scale w limit
                = feels_like_temperature periods scale (int (length periods)) limit
            \<and> humidity periods w limit = humidity periods (int (length periods)) limit
            \<and> wind_speed periods w limit = wind_speed periods (int (length periods)) limit
            \<and> chance_of_precipitation periods w limit
                = chance_of_precipitation periods (int (length periods)) limit)"
proof -
  have q1: "split_on CHR '' '' query = ''TEMPERATURE'' # ''AIR'' # scale # a # limit # rest \<longrightarrow>
            run_query query periods acc
              = and_then (air_temperature periods scale w limit) (\<lambda>r. Inr (acc @ [r]))"
    using run_query_temperature [where query = query and query_type = "''AIR''" and n = n]
      assms by simp
  have q2: "split_on CHR '' '' query = ''TEMPERATURE'' # ''FEELS'' # scale # a # limit # rest \<longrightarrow>
            run_query query periods acc
              = and_then (feels_like_temperature periods scale w limit) (\<lambda>r. Inr (acc @ [r]))"
    using run_query_temperature [where query = query and query_type = "''FEELS''" and n = n]
      assms by simp
  have q3: "split_on CHR '' '' query = ''HUMIDITY'' # a # limit # rest \<longrightarrow>
            run_query query periods acc
              = and_then (humidity periods w limit) (\<lambda>r. Inr (acc @ [r]))"
    using run_query_other [where query = query and query_type = "''HUMIDITY''" and n = n]
      assms by simp
  have q4: "split_on CHR '' '' query = ''WIND'' # a # limit # rest \<longrightarrow>
            run_query query periods acc
              = and_then (wind_speed periods w limit) (\<lambda>r. Inr (acc @ [r]))"
    using run_query_other [where query = query and query_type = "''WIND''" and n = n]
      assms by simp
  have q5: "split_on CHR '' '' query = ''PRECIPITATION'' # a # limit # rest \<longrightarrow>
            run_query query periods acc
              = and_then (chance_of_precipitation periods w limit) (\<lambda>r. Inr (acc @ [r]))"
    using run_query_other [where query = query and query_type = "''PRECIPITATION''" and n = n]
      assms by simp
  have b: "w \<le> int (length periods)" using assms(2) by simp
  have e1: "air_temperature periods scale w limit \<noteq> Inl IndexError"
    unfolding air_temperature_def assms(2)
    by (rule clamped_query_no_IndexError) (rule item_no_IndexError)
  have e2: "feels_like_temperature periods scale w limit \<noteq> Inl IndexError"
    unfolding feels_like_temperature_def assms(2)
    by (rule clamped_query_no_IndexError) (rule item_no_IndexError)
  have e3: "humidity periods w limit \<noteq> Inl IndexError"
    unfolding humidity_def assms(2)
    by (rule clamped_query_no_IndexError) (rule item_no_IndexError)
  have e4: "wind_speed periods w limit \<noteq> Inl IndexError"
    unfolding wind_speed_def assms(2)
    by (rule clamped_query_no_IndexError) (rule item_no_IndexError)
  have e5: "chance_of_precipitation periods w limit \<noteq> Inl IndexError"
    unfolding chance_of_precipitation_def assms(2)
    by (rule clamped_query_no_IndexError) (rule item_no_IndexError)
  have c: "int (length periods) \<le> n \<longrightarrow>
            w = int (length periods)
            \<and> air_temperature periods scale w limit
                = air_temperature periods scale (int (length periods)) limit
            \<and> feels_like_temperature periods scale w limit
                = feels_like_temperature periods scale (int (length periods)) limit
            \<and> humidity periods w limit = humidity periods (int (length periods)) limit
            \<and> wind_speed periods w limit = wind_speed periods (int (length periods)) limit
            \<and> chance_of_precipitation periods w limit
                = chance_of_precipitation periods (int (length periods)) limit"
    using assms(2) by simp
  from q1 q2 q3 q4 q5 b e1 e2 e3 e4 e5 c show ?thesis by blast
qed


text \<open>
  The query \<^verbatim>\<open>TEMPERATURE AIR F 5 MAX\<close> on the two example periods: the five hours asked for
  are cut down to two, and the line is the one of the window of length 2. Called with the
  length 5 itself, \<open>air_temperature\<close> raises \<open>IndexError\<close>.
\<close>

lemma ex_air_line:
  "air_temperature
     [\<lparr>startTime = ''2023-01-01T00:00:00-08:00'', temperature = 70, relativeHumidity = 50,
          windSpeed = ''5 mph'', probabilityOfPrecipitation = 10\<rparr>,
         \<lparr>startTime = ''2023-01-01T01:00:00-08:00'', temperature = 75, relativeHumidity = 40,
          windSpeed = ''10 mph'', probabilityOfPrecipitation = 20\<rparr>] ''F'' 2 ''MAX''
   = Inr ''2023-01-01T09:00:00Z 75.0000''"
  by (simp add: air_temperature_def extremum_scan_def air_item_F process_curr_item_def
      numeral_2_eq_2 and_then_def result_line_def ex_utc_2 ex_fmt_75)

lemma ex_air_unclamped:
  "air_temperature
     [\<lparr>startTime = ''2023-01-01T00:00:00-08:00'', temperature = 70, relativeHumidity = 50,
          windSpeed = ''5 mph'', probabilityOfPrecipitation = 10\<rparr>,
         \<lparr>startTime = ''2023-01-01T01:00:00-08:00'', temperature = 75, relativeHumidity = 40,
          windSpeed = ''10 mph'', probabilityOfPrecipitation = 20\<rparr>] ''F'' 5 ''MAX''
   = Inl IndexError"
  by (simp add: air_temperature_def extremum_scan_def air_item_F process_curr_item_def
      eval_nat_numeral and_then_def)

theorem query_window_clamped_witness:
  "py_int ''5'' = Inr 5
   \<and> (2::int) = min 5 (int (length
        [\<lparr>startTime = ''2023-01-01T00:00:00-08:00'', temperature = 70, relativeHumidity = 50,
          windSpeed = ''5 mph'', probabilityOfPrecipitation = 10\<rparr>,
         \<lparr>startTime = ''2023-01-01T01:00:00-08:00'', temperature = 75, relativeHumidity = 40,
          windSpeed = ''10 mph'', probabilityOfPrecipitation = 20\<rparr>]))
   \<and> run_query ''TEMPERATURE AIR F 5 MAX''
        [\<lparr>startTime = ''2023-01-01T00:00:00-08:00'', temperature = 70, relativeHumidity = 50,
          windSpeed = ''5 mph'', probabilityOfPrecipitation = 10\<rparr>,
         \<lparr>startTime = ''2023-01-01T01:00:00-08:00'', temperature = 75, relativeHumidity = 40,
          windSpeed = ''10 mph'', probabilityOfPrecipitation = 20\<rparr>] []
       = Inr [''2023-01-01T09:00:00Z 75.0000'']
   \<and> air_temperature
        [\<lparr>startTime = ''2023-01-01T00:00:00-08:00'', temperature = 70, relativeHumidity = 50,
          windSpeed = ''5 mph'', probabilityOfPrecipitation = 10\<rparr>,
         \<lparr>startTime = ''2023-01-01T01:00:00-08:00'', temperature = 75, relativeHumidity = 40,
          windSpeed = ''10 mph'', probabilityOfPrecipitation = 20\<rparr>] ''F'' 5 ''MAX''
       = Inl IndexError"
proof -
  let ?ps = "[\<lparr>startTime = ''2023-01-01T00:00:00-08:00'', temperature = 70, relativeHumidity = 50,
          windSpeed = ''5 mph'', probabilityOfPrecipitation = 10\<rparr>,
         \<lparr>startTime = ''2023-01-01T01:00:00-08:00'', temperature = 75, relativeHumidity = 40,
          windSpeed = ''10 mph'', probabilityOfPrecipitation = 20\<rparr>]"
  have h1: "py_int ''5'' = Inr 5"
    by (simp add: py_int_def strip_sign_def all_digits_def is_digit_def nat_of_digits_def
        digit_val_def)
  have h2: "(2::int) = min 5 (int (length ?ps))" by simp
  have sp: "split_on CHR '' '' ''TEMPERATURE AIR F 5 MAX''
      = ''TEMPERATURE'' # ''AIR'' # ''F'' # ''5'' # ''MAX'' # []" by simp
  from query_window_clamped [where query = "''TEMPERATURE AIR F 5 MAX''" and scale = "''F''"
      and limit = "''MAX''" and rest = "[]" and acc = "[]", OF h1 h2] sp
  have "run_query ''TEMPERATURE AIR F 5 MAX'' ?ps []
      = and_then (air_temperature ?ps ''F'' 2 ''MAX'') (\<lambda>r. Inr ([] @ [r]))"
    by blast
  then have r: "run_query ''TEMPERATURE AIR F 5 MAX'' ?ps [] = Inr [''2023-01-01T09:00:00Z 75.0000'']"
    by (simp add: ex_air_line and_then_def)
  from h1 h2 r ex_air_unclamped show ?thesis by blast
qed

end
